theory Spec2Isabelle
  imports Main "HOL-Library.AList" "HOL-Library.Multiset"
begin

section \<open>Resource manager (src/utils/resourceManager.ts)\<close>

text \<open>
  The class \<^verbatim>\<open>ResourceManager\<close> is modelled by explicit state passing. JavaScript runs
  every method below to completion before any other callback is entered (none of them
  awaits before it has finished mutating the object), so each method is one atomic step
  on the state. Numbers are modelled as \<open>int\<close>, the operation id \<^verbatim>\<open>op-<n>\<close> by its
  number \<open>n\<close>.
\<close>

record ResourceConfig =
  maxConcurrentBrowsers :: int
  maxSessionsPerUser :: int
  maxTotalSessions :: int
  sessionIdleTimeout :: int
  queueTimeout :: int
  maxQueueSize :: int
  memoryLimitMB :: "int option"
  enableAutoCleanup :: bool
  cleanupInterval :: int

datatype operation_type = browser_launch | session_create

text \<open>
  A queued operation. The closures \<^verbatim>\<open>resolve\<close> and \<^verbatim>\<open>reject\<close> are modelled by the log
  \<open>settled\<close> of the manager, the timer handle \<^verbatim>\<open>timeout\<close> by the set \<open>timers\<close> of armed
  timers.
\<close>

record QueuedOperation =
  op_id :: nat
  op_type :: operation_type
  userId :: "string option"
  priority :: int
  createdAt :: int

datatype rm_error =
    QueueFull
  | SessionLimit string
  | OpTimeout nat
  | QueueCleared

datatype settlement = Resolved | Rejected rm_error

record ResourceManager =
  config :: ResourceConfig
  activeBrowsers :: int
  activeSessions :: int
  sessionsByUser :: "string \<rightharpoonup> int"
  queue :: "QueuedOperation list"
  nextOperationId :: nat
  processing :: bool
  timers :: "nat set"
  settled :: "(nat \<times> settlement) list"

definition ResourceManager_new :: "ResourceConfig \<Rightarrow> ResourceManager" where
  "ResourceManager_new cfg =
     \<lparr> config = cfg, activeBrowsers = 0, activeSessions = 0, sessionsByUser = Map.empty,
       queue = [], nextOperationId = 1, processing = False, timers = {}, settled = [] \<rparr>"

text \<open>The outcome of \<^verbatim>\<open>requestBrowserLaunch\<close>: it returns, it throws, or it hands back the
  pending promise of the operation it queued.\<close>

datatype launch_result = Granted | Failed rm_error | Pending nat

text \<open>\<^verbatim>\<open>if (userId)\<close>: an absent and an empty user id are both falsy.\<close>

definition user_of :: "string option \<Rightarrow> string option" where
  "user_of uid = (case uid of None \<Rightarrow> None | Some u \<Rightarrow> if u = [] then None else Some u)"

text \<open>\<^verbatim>\<open>this.sessionsByUser.get(u) || 0\<close>\<close>

definition count_or_0 :: "(string \<rightharpoonup> int) \<Rightarrow> string \<Rightarrow> int" where
  "count_or_0 m u = (case m u of None \<Rightarrow> 0 | Some c \<Rightarrow> c)"

text \<open>The comparator given to \<^verbatim>\<open>queue.sort\<close>.\<close>

definition compare_ops :: "QueuedOperation \<Rightarrow> QueuedOperation \<Rightarrow> int" where
  "compare_ops a b =
     (if priority a \<noteq> priority b then priority b - priority a
      else createdAt a - createdAt b)"

text \<open>\<^verbatim>\<open>Array.prototype.sort\<close> is a stable sort; it is modelled by stable insertion
  sort with the comparator.\<close>

fun insert_sorted :: "('a \<Rightarrow> 'a \<Rightarrow> int) \<Rightarrow> 'a \<Rightarrow> 'a list \<Rightarrow> 'a list" where
  "insert_sorted cmp x [] = [x]"
| "insert_sorted cmp x (y # ys) =
     (if cmp x y \<le> 0 then x # y # ys else y # insert_sorted cmp x ys)"

definition stable_sort :: "('a \<Rightarrow> 'a \<Rightarrow> int) \<Rightarrow> 'a list \<Rightarrow> 'a list" where
  "stable_sort cmp xs = foldr (insert_sorted cmp) xs []"

definition enqueue ::
  "operation_type \<Rightarrow> string option \<Rightarrow> int \<Rightarrow> int \<Rightarrow> ResourceManager
     \<Rightarrow> launch_result \<times> ResourceManager" where
  "enqueue ty uid prio now s =
     (let n = nextOperationId s;
          operation = \<lparr> op_id = n, op_type = ty, userId = uid, priority = prio,
                        createdAt = now \<rparr>
      in (Pending n,
          s\<lparr> nextOperationId := n + 1,
             timers := insert n (timers s),
             queue := stable_sort compare_ops (queue s @ [operation]) \<rparr>))"

definition requestBrowserLaunch ::
  "string option \<Rightarrow> int \<Rightarrow> int \<Rightarrow> ResourceManager \<Rightarrow> launch_result \<times> ResourceManager" where
  "requestBrowserLaunch uid prio now s =
     (if activeBrowsers s \<ge> maxConcurrentBrowsers (config s) then
        (if int (length (queue s)) \<ge> maxQueueSize (config s) then (Failed QueueFull, s)
         else enqueue browser_launch uid prio now s)
      else
        (case user_of uid of
           None \<Rightarrow> (Granted, s\<lparr> activeBrowsers := activeBrowsers s + 1 \<rparr>)
         | Some u \<Rightarrow>
             if (case sessionsByUser s u of None \<Rightarrow> False
                 | Some c \<Rightarrow> c \<ge> maxSessionsPerUser (config s))
             then (Failed (SessionLimit u), s)
             else (Granted,
                   s\<lparr> activeBrowsers := activeBrowsers s + 1,
                      sessionsByUser :=
                        (sessionsByUser s)(u \<mapsto> count_or_0 (sessionsByUser s) u + 1) \<rparr>)))"

text \<open>One iteration of the loop of \<^verbatim>\<open>processQueue\<close>, after \<^verbatim>\<open>queue.shift()\<close>: clear the
  timer, check the user's limit, grant.\<close>

definition process_one :: "QueuedOperation \<Rightarrow> ResourceManager \<Rightarrow> ResourceManager" where
  "process_one operation s =
     (let s1 = s\<lparr> timers := timers s - {op_id operation} \<rparr> in
      case user_of (userId operation) of
        None \<Rightarrow>
          s1\<lparr> activeBrowsers := activeBrowsers s1 + 1,
              settled := settled s1 @ [(op_id operation, Resolved)] \<rparr>
      | Some u \<Rightarrow>
          if count_or_0 (sessionsByUser s1) u \<ge> maxSessionsPerUser (config s1)
          then s1\<lparr> settled := settled s1 @ [(op_id operation, Rejected (SessionLimit u))] \<rparr>
          else s1\<lparr> activeBrowsers := activeBrowsers s1 + 1,
                   sessionsByUser :=
                     (sessionsByUser s1)(u \<mapsto> count_or_0 (sessionsByUser s1) u + 1),
                   settled := settled s1 @ [(op_id operation, Resolved)] \<rparr>)"

function processQueue_loop :: "ResourceManager \<Rightarrow> ResourceManager" where
  "processQueue_loop s =
     (case queue s of
        [] \<Rightarrow> s
      | operation # rest \<Rightarrow>
          if activeBrowsers s < maxConcurrentBrowsers (config s)
          then processQueue_loop (process_one operation (s\<lparr> queue := rest \<rparr>))
          else s)"
  by pat_completeness auto
termination
  by (relation "measure (\<lambda>s. length (queue s))")
     (auto simp: process_one_def Let_def split: option.splits)

declare processQueue_loop.simps [simp del]

definition processQueue :: "ResourceManager \<Rightarrow> ResourceManager" where
  "processQueue s =
     (if processing s \<or> queue s = [] then s
      else (processQueue_loop (s\<lparr> processing := True \<rparr>))\<lparr> processing := False \<rparr>)"

text \<open>\<^verbatim>\<open>releaseBrowser\<close> in its two parts: the counters are decremented, then the queue is
  processed.\<close>

definition release_counters :: "string option \<Rightarrow> ResourceManager \<Rightarrow> ResourceManager" where
  "release_counters uid s =
     s\<lparr> activeBrowsers := max 0 (activeBrowsers s - 1),
        sessionsByUser :=
          (case user_of uid of
             None \<Rightarrow> sessionsByUser s
           | Some u \<Rightarrow>
               if count_or_0 (sessionsByUser s) u > 1
               then (sessionsByUser s)(u \<mapsto> count_or_0 (sessionsByUser s) u - 1)
               else (sessionsByUser s)(u := None)) \<rparr>"

definition releaseBrowser :: "string option \<Rightarrow> ResourceManager \<Rightarrow> ResourceManager" where
  "releaseBrowser uid s = processQueue (release_counters uid s)"

fun remove_first :: "('a \<Rightarrow> bool) \<Rightarrow> 'a list \<Rightarrow> 'a list" where
  "remove_first P [] = []"
| "remove_first P (x # xs) = (if P x then xs else x # remove_first P xs)"

definition removeFromQueue :: "nat \<Rightarrow> ResourceManager \<Rightarrow> ResourceManager" where
  "removeFromQueue n s =
     (if list_ex (\<lambda>operation. op_id operation = n) (queue s)
      then s\<lparr> queue := remove_first (\<lambda>operation. op_id operation = n) (queue s),
              timers := timers s - {n} \<rparr>
      else s)"

text \<open>The callback given to \<^verbatim>\<open>setTimeout\<close> in \<^verbatim>\<open>enqueue\<close>. A timer fires once, and only
  while it is armed: \<^verbatim>\<open>clearTimeout\<close> takes it out of \<open>timers\<close>.\<close>

definition timer_fired :: "nat \<Rightarrow> ResourceManager \<Rightarrow> ResourceManager" where
  "timer_fired n s =
     (if n \<in> timers s then
        (let s1 = removeFromQueue n (s\<lparr> timers := timers s - {n} \<rparr>)
         in s1\<lparr> settled := settled s1 @ [(n, Rejected (OpTimeout n))] \<rparr>)
      else s)"

definition clearQueue :: "ResourceManager \<Rightarrow> nat \<times> ResourceManager" where
  "clearQueue s =
     (length (queue s),
      s\<lparr> timers := timers s - op_id ` set (queue s),
         settled := settled s @ map (\<lambda>operation. (op_id operation, Rejected QueueCleared)) (queue s),
         queue := [] \<rparr>)"

text \<open>What can happen to a manager: the calls of its public methods and the firing of a
  timer. A run is a sequence of such events from the freshly constructed manager.\<close>

datatype event =
    RequestLaunch "string option" int int
  | Release "string option"
  | TimerFired nat
  | ClearQueue

fun step :: "ResourceManager \<Rightarrow> event \<Rightarrow> ResourceManager" where
  "step s (RequestLaunch uid prio now) = snd (requestBrowserLaunch uid prio now s)"
| "step s (Release uid) = releaseBrowser uid s"
| "step s (TimerFired n) = timer_fired n s"
| "step s ClearQueue = snd (clearQueue s)"

definition run :: "ResourceConfig \<Rightarrow> event list \<Rightarrow> ResourceManager" where
  "run cfg evs = foldl step (ResourceManager_new cfg) evs"


section \<open>Session persistence (class SessionPersistence)\<close>

text \<open>
  Values of type \<^verbatim>\<open>any\<close> (cookies, metadata, geolocation) are JavaScript data: the JSON
  values, and \<^verbatim>\<open>undefined\<close> and the numbers that are not finite (\<^verbatim>\<open>NaN\<close>, the infinities),
  which JSON cannot write. Instants (\<^verbatim>\<open>Date\<close>, and the ISO strings written from them) are
  modelled by their millisecond count.
\<close>

datatype js_value =
    JUndefined
  | JNull
  | JBool bool
  | JNum int
  | JNonFinite
  | JStr string
  | JArr "js_value list"
  | JObj "(string \<times> js_value) list"

record BrowserSettings =
  bs_browserType :: "string option"
  bs_headless :: "bool option"
  bs_viewport :: "(int \<times> int) option"
  bs_userAgent :: "string option"
  bs_locale :: "string option"
  bs_timezoneId :: "string option"
  bs_geolocation :: "js_value option"
  bs_permissions :: "string list option"

record PersistedSessionData =
  pd_id :: string
  pd_browserType :: string
  pd_settings :: BrowserSettings
  pd_pageUrl :: string
  pd_cookies :: "js_value list"
  pd_localStorage :: "(string \<times> string) list"
  pd_sessionStorage :: "(string \<times> string) list"
  pd_viewport :: "int \<times> int"
  pd_createdAt :: int
  pd_lastAccessedAt :: int
  pd_metadata :: "(string \<times> js_value) list option"

subsection \<open>Paths\<close>

text \<open>
  \<^verbatim>\<open>path.join\<close> of Node (POSIX) joins its non-empty arguments with a slash and normalises
  the result: empty segments and \<^verbatim>\<open>.\<close> segments are dropped, and a \<^verbatim>\<open>..\<close> segment takes back
  the segment before it (at the root it is dropped, and at the start of a relative path it
  is kept). A normalised path is modelled by whether it is absolute and by its segments.
  Relative paths are not resolved against the working directory.
\<close>

type_synonym path = "bool \<times> string list"

fun split_path :: "string \<Rightarrow> string list" where
  "split_path [] = [[]]"
| "split_path (c # cs) =
     (if c = CHR ''/'' then [] # split_path cs
      else (case split_path cs of [] \<Rightarrow> [[c]] | seg # segs \<Rightarrow> (c # seg) # segs))"

text \<open>One segment met while normalising; the segments so far are kept in reverse.\<close>

definition resolve_step :: "bool \<Rightarrow> string list \<Rightarrow> string \<Rightarrow> string list" where
  "resolve_step absolute stack seg =
     (if seg = [] \<or> seg = ''.'' then stack
      else if seg = ''..'' then
        (case stack of
           [] \<Rightarrow> if absolute then [] else [''..'']
         | prev # rest \<Rightarrow> if prev = ''..'' then ''..'' # stack else rest)
      else seg # stack)"

definition normalize :: "string \<Rightarrow> path" where
  "normalize p =
     (take 1 p = ''/'', rev (foldl (resolve_step (take 1 p = ''/'')) [] (split_path p)))"

definition path_join :: "string \<Rightarrow> string \<Rightarrow> path" where
  "path_join a b = normalize (if a = [] then b else if b = [] then a else a @ ''/'' @ b)"

subsection \<open>The file system\<close>

text \<open>
  The durable storage collaborator (\<^verbatim>\<open>fs/promises\<close>): an association list from the paths
  of the files to their contents, and the set of paths on which every operation fails
  with an I/O error. The content of a file is the JSON text of a record, modelled by the
  record it denotes, or some other text.
\<close>

datatype fs_error = ENOENT | EIO

datatype file_content = JsonText PersistedSessionData | OtherText string

record FileSystem =
  files :: "(path \<times> file_content) list"
  faulty :: "path set"
  mkdir_fails :: bool


definition writeFile :: "FileSystem \<Rightarrow> path \<Rightarrow> file_content \<Rightarrow> fs_error + FileSystem" where
  "writeFile d p content =
     (if p \<in> faulty d then Inl EIO
      else Inr (d\<lparr> files := AList.update p content (files d) \<rparr>))"



subsection \<open>JSON\<close>

text \<open>
  What \<^verbatim>\<open>JSON.parse\<close> reads back from what \<^verbatim>\<open>JSON.stringify\<close> wrote: a number that is not
  finite comes back as \<^verbatim>\<open>null\<close>, \<^verbatim>\<open>undefined\<close> comes back as \<^verbatim>\<open>null\<close> inside an array, and a
  property whose value is \<^verbatim>\<open>undefined\<close> does not come back.
\<close>

definition undefined_to_null :: "js_value \<Rightarrow> js_value" where
  "undefined_to_null v = (if v = JUndefined then JNull else v)"

primrec json_clean :: "js_value \<Rightarrow> js_value" where
  "json_clean JUndefined = JUndefined"
| "json_clean JNull = JNull"
| "json_clean (JBool b) = JBool b"
| "json_clean (JNum n) = JNum n"
| "json_clean JNonFinite = JNull"
| "json_clean (JStr s) = JStr s"
| "json_clean (JArr vs) = JArr (map undefined_to_null (map json_clean vs))"
| "json_clean (JObj kvs) =
     JObj (filter (\<lambda>kv. snd kv \<noteq> JUndefined) (map (map_prod id json_clean) kvs))"

definition json_clean_record :: "PersistedSessionData \<Rightarrow> PersistedSessionData" where
  "json_clean_record r =
     r\<lparr> pd_settings :=
          (pd_settings r)
            \<lparr> bs_geolocation :=
                (case bs_geolocation (pd_settings r) of
                   None \<Rightarrow> None
                 | Some v \<Rightarrow> if v = JUndefined then None else Some (json_clean v)) \<rparr>,
        pd_cookies := map undefined_to_null (map json_clean (pd_cookies r)),
        pd_metadata :=
          map_option
            (\<lambda>kvs. filter (\<lambda>kv. snd kv \<noteq> JUndefined) (map (map_prod id json_clean) kvs))
            (pd_metadata r) \<rparr>"

text \<open>The serialiser is a parameter of the persistence functions; \<open>json_parse\<close> gives
  \<open>None\<close> where \<^verbatim>\<open>JSON.parse\<close> throws. \<open>node_json\<close> is the one the code uses.\<close>

record Codec =
  json_stringify :: "PersistedSessionData \<Rightarrow> file_content"
  json_parse :: "file_content \<Rightarrow> PersistedSessionData option"

definition node_json :: Codec where
  "node_json =
     \<lparr> json_stringify = (\<lambda>sessionData. JsonText (json_clean_record sessionData)),
       json_parse = (\<lambda>content. case content of
                        JsonText sessionData \<Rightarrow> Some sessionData
                      | OtherText text \<Rightarrow> None) \<rparr>"

subsection \<open>The methods of SessionPersistence\<close>

text \<open>The methods take the \<^verbatim>\<open>persistenceDir\<close> of the instance as \<open>dir\<close>;
  \<open>default_persistenceDir\<close> is that of the exported singleton.\<close>

definition default_persistenceDir :: string where
  "default_persistenceDir = ''./.playwright-sessions''"

datatype sp_error = FsError fs_error | SyntaxError

definition initialize :: "FileSystem \<Rightarrow> fs_error + unit" where
  "initialize d = (if mkdir_fails d then Inl EIO else Inr ())"

definition getSessionFilePath :: "string \<Rightarrow> string \<Rightarrow> path" where
  "getSessionFilePath dir sessionId = path_join dir (sessionId @ ''.json'')"

definition saveSession ::
  "Codec \<Rightarrow> string \<Rightarrow> PersistedSessionData \<Rightarrow> FileSystem
     \<Rightarrow> (sp_error + unit) \<times> FileSystem" where
  "saveSession codec dir sessionData d =
     (case initialize d of
        Inl e \<Rightarrow> (Inl (FsError e), d)
      | Inr _ \<Rightarrow>
          (case writeFile d (getSessionFilePath dir (pd_id sessionData))
                  (json_stringify codec sessionData) of
             Inl e \<Rightarrow> (Inl (FsError e), d)
           | Inr d' \<Rightarrow> (Inr (), d')))"



definition ends_with :: "string \<Rightarrow> string \<Rightarrow> bool" where
  "ends_with s suffix =
     (length suffix \<le> length s \<and> drop (length s - length suffix) s = suffix)"





section \<open>Session manager (class SessionManager)\<close>

text \<open>
  The browser engine (Playwright) is an external collaborator: the record \<open>Engine\<close> gives
  the outcome of each of its calls, \<open>Inl\<close> or \<open>Some\<close> of a message where the call throws.
  Browsers and pages are handles. The methods of the session manager are modelled as they
  run without another task interleaving at their \<^verbatim>\<open>await\<close>s; console output is not
  modelled, and one reading \<open>now\<close> of the clock serves a whole call.
\<close>

record ContextOptions =
  co_viewport :: "int \<times> int"
  co_userAgent :: "string option"
  co_locale :: "string option"
  co_timezoneId :: "string option"
  co_geolocation :: "js_value option"
  co_permissions :: "string list option"

record Engine =
  e_launch :: "string \<Rightarrow> bool \<Rightarrow> string + nat"
  e_newPage :: "nat \<Rightarrow> ContextOptions \<Rightarrow> string + nat"
  e_cookies :: "nat \<Rightarrow> string + js_value list"
  e_storage :: "nat \<Rightarrow> ((string \<times> string) list \<times> (string \<times> string) list) option"
  e_viewportSize :: "nat \<Rightarrow> (int \<times> int) option"
  e_url :: "nat \<Rightarrow> string"
  e_goto :: "nat \<Rightarrow> string \<Rightarrow> string option"
  e_addCookies :: "nat \<Rightarrow> js_value list \<Rightarrow> string option"
  e_restoreStorage ::
    "nat \<Rightarrow> (string \<times> string) list \<Rightarrow> (string \<times> string) list \<Rightarrow> string option"

record BrowserSession =
  s_id :: string
  s_browser :: nat
  s_page :: nat
  s_browserType :: string
  s_consoleLog :: "string list"
  s_screenshots :: "(string \<times> string) list"
  s_responsePromises :: "(string \<times> nat) list"
  s_createdAt :: int
  s_lastAccessedAt :: int
  s_settings :: "BrowserSettings option"

text \<open>The state the session manager works on: its own fields, the file system
  behind the singleton \<^verbatim>\<open>sessionPersistence\<close>, and the singleton
  \<^verbatim>\<open>resourceManager\<close> of the process.\<close>

record System =
  sessions :: "string \<rightharpoonup> BrowserSession"
  nextSessionId :: nat
  disk :: FileSystem
  governor :: ResourceManager

definition defaultSessionId :: string where
  "defaultSessionId = ''default''"

datatype sm_error =
    AlreadyExists string
  | UnknownBrowserType string
  | EngineError string
  | NotFound string

text \<open>Decimal rendering of a counter in a template literal.\<close>

fun string_of_nat :: "nat \<Rightarrow> string" where
  "string_of_nat n =
     (if n < 10 then [''0123456789'' ! n]
      else string_of_nat (n div 10) @ [''0123456789'' ! (n mod 10)])"

declare string_of_nat.simps [simp del]

text \<open>\<^verbatim>\<open>x || fallback\<close> on an optional string: absent and empty are falsy.\<close>

definition or_else :: "string option \<Rightarrow> string \<Rightarrow> string" where
  "or_else x fallback = (case x of None \<Rightarrow> fallback | Some v \<Rightarrow> if v = [] then fallback else v)"

text \<open>\<^verbatim>\<open>if (settings?.field)\<close> on an optional string: kept when non-empty.\<close>

definition truthy_string :: "string option \<Rightarrow> string option" where
  "truthy_string x = (case x of None \<Rightarrow> None | Some v \<Rightarrow> if v = [] then None else Some v)"

definition contextOptions :: "BrowserSettings option \<Rightarrow> ContextOptions" where
  "contextOptions settings =
     (case settings of
        None \<Rightarrow>
          \<lparr> co_viewport = (1280, 720), co_userAgent = None, co_locale = None,
            co_timezoneId = None, co_geolocation = None, co_permissions = None \<rparr>
      | Some st \<Rightarrow>
          \<lparr> co_viewport = (case bs_viewport st of None \<Rightarrow> (1280, 720) | Some v \<Rightarrow> v),
            co_userAgent = truthy_string (bs_userAgent st),
            co_locale = truthy_string (bs_locale st),
            co_timezoneId = truthy_string (bs_timezoneId st),
            co_geolocation = bs_geolocation st,
            co_permissions = bs_permissions st \<rparr>)"

definition empty_settings :: BrowserSettings where
  "empty_settings =
     \<lparr> bs_browserType = None, bs_headless = None, bs_viewport = None, bs_userAgent = None,
       bs_locale = None, bs_timezoneId = None, bs_geolocation = None,
       bs_permissions = None \<rparr>"

text \<open>\<^verbatim>\<open>persistSession\<close>: every error is caught, the file system is all it may change.\<close>

definition persistSession ::
  "Codec \<Rightarrow> Engine \<Rightarrow> BrowserSession \<Rightarrow> FileSystem \<Rightarrow> FileSystem" where
  "persistSession codec eng session d =
     (case e_cookies eng (s_page session) of
        Inl e \<Rightarrow> d
      | Inr cookies \<Rightarrow>
          (let storageData =
                 (case e_storage eng (s_page session) of None \<Rightarrow> ([], []) | Some sd \<Rightarrow> sd);
               viewport =
                 (case e_viewportSize eng (s_page session) of
                    None \<Rightarrow> (1280, 720) | Some v \<Rightarrow> v);
               persistedData =
                 \<lparr> pd_id = s_id session,
                   pd_browserType = s_browserType session,
                   pd_settings =
                     (case s_settings session of None \<Rightarrow> empty_settings | Some st \<Rightarrow> st),
                   pd_pageUrl = e_url eng (s_page session),
                   pd_cookies = cookies,
                   pd_localStorage = fst storageData,
                   pd_sessionStorage = snd storageData,
                   pd_viewport = viewport,
                   pd_createdAt = s_createdAt session,
                   pd_lastAccessedAt = s_lastAccessedAt session,
                   pd_metadata = None \<rparr>
           in snd (saveSession codec default_persistenceDir persistedData d)))"

definition createSession ::
  "Codec \<Rightarrow> Engine \<Rightarrow> int \<Rightarrow> string option \<Rightarrow> BrowserSettings option \<Rightarrow> System
     \<Rightarrow> (sm_error + string) \<times> System" where
  "createSession codec eng now sessionId settings w =
     (let generated = (case truthy_string sessionId of None \<Rightarrow> True | Some i \<Rightarrow> False);
          sid = or_else sessionId (''session-'' @ string_of_nat (nextSessionId w));
          w1 = (if generated then w\<lparr> nextSessionId := nextSessionId w + 1 \<rparr> else w)
      in if sessions w1 sid \<noteq> None then (Inl (AlreadyExists sid), w1)
         else
           (let browserType =
                  or_else (case settings of None \<Rightarrow> None | Some st \<Rightarrow> bs_browserType st)
                    ''chromium'';
                headless =
                  (case settings of
                     None \<Rightarrow> True
                   | Some st \<Rightarrow> (case bs_headless st of None \<Rightarrow> True | Some h \<Rightarrow> h))
            in if browserType \<noteq> ''chromium'' \<and> browserType \<noteq> ''firefox''
                  \<and> browserType \<noteq> ''webkit''
               then (Inl (UnknownBrowserType browserType), w1)
               else
                 (case e_launch eng browserType headless of
                    Inl msg \<Rightarrow> (Inl (EngineError msg), w1)
                  | Inr browser \<Rightarrow>
                      (case e_newPage eng browser (contextOptions settings) of
                         Inl msg \<Rightarrow> (Inl (EngineError msg), w1)
                       | Inr page \<Rightarrow>
                           (let session =
                                  \<lparr> s_id = sid, s_browser = browser, s_page = page,
                                    s_browserType = browserType, s_consoleLog = [],
                                    s_screenshots = [], s_responsePromises = [],
                                    s_createdAt = now, s_lastAccessedAt = now,
                                    s_settings = settings \<rparr>;
                                w2 = w1\<lparr> sessions := (sessions w1)(sid \<mapsto> session) \<rparr>
                            in (Inr sid,
                                w2\<lparr> disk := persistSession codec eng session (disk w2) \<rparr>))))))"

text \<open>The handler registered with \<^verbatim>\<open>browser.on('disconnected', ...)\<close> for session \<open>sid\<close>.\<close>

definition on_disconnected :: "string \<Rightarrow> System \<Rightarrow> System" where
  "on_disconnected sid w = w\<lparr> sessions := (sessions w)(sid := None) \<rparr>"

definition getSession :: "int \<Rightarrow> string option \<Rightarrow> System \<Rightarrow> BrowserSession option \<times> System" where
  "getSession now sessionId w =
     (let sid = or_else sessionId defaultSessionId in
      case sessions w sid of
        None \<Rightarrow> (None, w)
      | Some session \<Rightarrow>
          (let session' = session\<lparr> s_lastAccessedAt := now \<rparr>
           in (Some session', w\<lparr> sessions := (sessions w)(sid \<mapsto> session') \<rparr>)))"

text \<open>\<^verbatim>\<open>closeSession\<close>: errors of closing the pages and the browser are caught, and the
  \<^verbatim>\<open>finally\<close> block deletes the entry whatever happened.\<close>

definition closeSession :: "string \<Rightarrow> System \<Rightarrow> (sm_error + unit) \<times> System" where
  "closeSession sessionId w =
     (case sessions w sessionId of
        None \<Rightarrow> (Inl (NotFound sessionId), w)
      | Some session \<Rightarrow> (Inr (), w\<lparr> sessions := (sessions w)(sessionId := None) \<rparr>))"




definition System_new :: "ResourceConfig \<Rightarrow> System" where
  "System_new cfg =
     \<lparr> sessions = Map.empty, nextSessionId = 1,
       disk = \<lparr> files = [], faulty = {}, mkdir_fails = False \<rparr>,
       governor = ResourceManager_new cfg \<rparr>"


text \<open>A small configuration and a run, for concrete instances: one browser at a time, one
  session per user, a queue of two.\<close>

definition example_config :: ResourceConfig where
  "example_config =
     \<lparr> maxConcurrentBrowsers = 1, maxSessionsPerUser = 1, maxTotalSessions = 10,
       sessionIdleTimeout = 3600000, queueTimeout = 300000, maxQueueSize = 2,
       memoryLimitMB = None, enableAutoCleanup = False, cleanupInterval = 300000 \<rparr>"

text \<open>The same configuration with a per-user limit of zero.\<close>

definition zero_limit_config :: ResourceConfig where
  "zero_limit_config = example_config\<lparr> maxSessionsPerUser := 0 \<rparr>"

text \<open>An engine all of whose calls succeed, on a blank page, and one whose launch
  throws.\<close>

definition example_engine :: Engine where
  "example_engine =
     \<lparr> e_launch = (\<lambda>browserType headless. Inr 1),
       e_newPage = (\<lambda>browser options. Inr 2),
       e_cookies = (\<lambda>page. Inr []),
       e_storage = (\<lambda>page. Some ([], [])),
       e_viewportSize = (\<lambda>page. Some (1280, 720)),
       e_url = (\<lambda>page. ''about:blank''),
       e_goto = (\<lambda>page url. None),
       e_addCookies = (\<lambda>page cookies. None),
       e_restoreStorage = (\<lambda>page local session. None) \<rparr>"



definition example_codec :: Codec where
  "example_codec = node_json"

section \<open>Invariants and notions used in the properties\<close>

text \<open>The counter of active browsers is within its bounds; the queue is within its
  bound.\<close>

definition capacity_ok :: "ResourceManager \<Rightarrow> bool" where
  "capacity_ok s =
     (0 \<le> activeBrowsers s \<and> activeBrowsers s \<le> maxConcurrentBrowsers (config s))"

definition queue_bounded :: "ResourceManager \<Rightarrow> bool" where
  "queue_bounded s = (int (length (queue s)) \<le> maxQueueSize (config s))"

text \<open>The settlements a queued operation can get: a grant, the rejections for the
  per-user limit and for a cleared queue, and its own time-out. The queue-full error is
  thrown to the caller before anything is queued.\<close>

definition valid_outcome :: "nat \<times> settlement \<Rightarrow> bool" where
  "valid_outcome p =
     (case snd p of
        Resolved \<Rightarrow> True
      | Rejected e \<Rightarrow>
          (case e of
             QueueFull \<Rightarrow> False
           | SessionLimit u \<Rightarrow> True
           | OpTimeout m \<Rightarrow> m = fst p
           | QueueCleared \<Rightarrow> True))"

text \<open>The bookkeeping of queued operations: the armed timers are those of the waiting
  operations, no identifier waits twice or is settled twice, and the identifiers issued so
  far are split between the waiting and the settled.\<close>

definition outcomes_ok :: "ResourceManager \<Rightarrow> bool" where
  "outcomes_ok s =
     (1 \<le> nextOperationId s \<and>
      timers s = op_id ` set (queue s) \<and>
      distinct (map op_id (queue s)) \<and>
      distinct (map fst (settled s)) \<and>
      op_id ` set (queue s) \<inter> fst ` set (settled s) = {} \<and>
      op_id ` set (queue s) \<union> fst ` set (settled s) = {1..<nextOperationId s} \<and>
      list_all valid_outcome (settled s))"

text \<open>The order in which the queue is kept: higher priority first, then earlier creation
  time, then (the sort being stable) earlier arrival.\<close>

definition precedes :: "QueuedOperation \<Rightarrow> QueuedOperation \<Rightarrow> bool" where
  "precedes a b =
     (priority b < priority a \<or>
      (priority a = priority b \<and>
       (createdAt a < createdAt b \<or> (createdAt a = createdAt b \<and> op_id a < op_id b))))"

text \<open>A waiting operation is eligible when the check of the user's limit in
  \<^verbatim>\<open>processQueue\<close> lets it pass.\<close>

definition eligible :: "ResourceConfig \<Rightarrow> (string \<rightharpoonup> int) \<Rightarrow> QueuedOperation \<Rightarrow> bool" where
  "eligible cfg users operation =
     (case user_of (userId operation) of
        None \<Rightarrow> True
      | Some u \<Rightarrow> count_or_0 users u < maxSessionsPerUser cfg)"

text \<open>The settlement of an operation that fails the check.\<close>

definition limit_rejection :: "QueuedOperation \<Rightarrow> nat \<times> settlement" where
  "limit_rejection operation =
     (op_id operation,
      Rejected (SessionLimit (case user_of (userId operation) of None \<Rightarrow> [] | Some u \<Rightarrow> u)))"

text \<open>The queue is in order, and operations wait only while all browsers are in
  use.\<close>

definition queue_sorted :: "ResourceManager \<Rightarrow> bool" where
  "queue_sorted s =
     (sorted_wrt precedes (queue s) \<and>
      (\<forall>operation \<in> set (queue s). op_id operation < nextOperationId s))"

definition waits_only_when_full :: "ResourceManager \<Rightarrow> bool" where
  "waits_only_when_full s =
     (\<not> processing s \<and>
      (queue s \<noteq> [] \<longrightarrow> maxConcurrentBrowsers (config s) \<le> activeBrowsers s))"

text \<open>Every user with an entry holds between one session and the per-user limit.\<close>

definition users_bounded :: "ResourceConfig \<Rightarrow> (string \<rightharpoonup> int) \<Rightarrow> bool" where
  "users_bounded cfg m = (\<forall>u c. m u = Some c \<longrightarrow> 1 \<le> c \<and> c \<le> maxSessionsPerUser cfg)"

definition users_ok :: "ResourceManager \<Rightarrow> bool" where
  "users_ok s = users_bounded (config s) (sessionsByUser s)"











section \<open>Properties of the resource manager\<close>

subsection \<open>The loop of processQueue\<close>

lemma queue_process_one [simp]: "queue (process_one operation s) = queue s"
  by (simp add: process_one_def Let_def split: option.splits)

lemma config_process_one [simp]: "config (process_one operation s) = config s"
  by (simp add: process_one_def Let_def split: option.splits)

lemma processing_process_one [simp]: "processing (process_one operation s) = processing s"
  by (simp add: process_one_def Let_def split: option.splits)

lemma nextOperationId_process_one [simp]:
  "nextOperationId (process_one operation s) = nextOperationId s"
  by (simp add: process_one_def Let_def split: option.splits)

lemma processQueue_loop_Nil: "queue s = [] \<Longrightarrow> processQueue_loop s = s"
  by (simp add: processQueue_loop.simps [of s])

lemma processQueue_loop_full:
  "\<not> activeBrowsers s < maxConcurrentBrowsers (config s) \<Longrightarrow> processQueue_loop s = s"
  by (simp add: processQueue_loop.simps [of s] split: list.splits)

lemma processQueue_loop_Cons:
  "queue s = operation # rest \<Longrightarrow> activeBrowsers s < maxConcurrentBrowsers (config s) \<Longrightarrow>
   processQueue_loop s = processQueue_loop (process_one operation (s\<lparr> queue := rest \<rparr>))"
  by (simp add: processQueue_loop.simps [of s])

lemma processQueue_loop_rule:
  assumes "P s"
    and "\<And>s operation rest. P s \<Longrightarrow> queue s = operation # rest \<Longrightarrow>
           activeBrowsers s < maxConcurrentBrowsers (config s) \<Longrightarrow>
           P (process_one operation (s\<lparr> queue := rest \<rparr>))"
  shows "P (processQueue_loop s)"
  using assms(1)
proof (induction s rule: processQueue_loop.induct)
  case (1 s)
  show ?case
  proof (cases "queue s")
    case Nil
    then show ?thesis using 1(2) by (simp add: processQueue_loop_Nil)
  next
    case (Cons operation rest)
    show ?thesis
    proof (cases "activeBrowsers s < maxConcurrentBrowsers (config s)")
      case True
      have "P (process_one operation (s\<lparr> queue := rest \<rparr>))"
        using assms(2) [OF 1(2) Cons True] .
      then have "P (processQueue_loop (process_one operation (s\<lparr> queue := rest \<rparr>)))"
        using 1(1) [OF Cons True] by simp
      then show ?thesis using Cons True by (simp add: processQueue_loop_Cons)
    next
      case False
      then show ?thesis using 1(2) by (simp add: processQueue_loop_full)
    qed
  qed
qed

text \<open>An invariant that does not read the flag \<open>processing\<close> passes through
  \<open>processQueue\<close> when one iteration of the loop keeps it.\<close>

lemma processQueue_rule:
  assumes "P s"
    and "\<And>s b. P (s\<lparr> processing := b \<rparr>) = P s"
    and "\<And>s operation rest. P s \<Longrightarrow> queue s = operation # rest \<Longrightarrow>
           activeBrowsers s < maxConcurrentBrowsers (config s) \<Longrightarrow>
           P (process_one operation (s\<lparr> queue := rest \<rparr>))"
  shows "P (processQueue s)"
proof -
  have "P (s\<lparr> processing := True \<rparr>)" using assms(1,2) by simp
  then have "P (processQueue_loop (s\<lparr> processing := True \<rparr>))"
    by (rule processQueue_loop_rule) (rule assms(3))
  then have "P ((processQueue_loop (s\<lparr> processing := True \<rparr>))\<lparr> processing := False \<rparr>)"
    using assms(2) by simp
  then show ?thesis using assms(1) by (simp add: processQueue_def)
qed

lemma run_snoc: "run cfg (evs @ [e]) = step (run cfg evs) e"
  by (simp add: run_def)

lemma run_Nil: "run cfg [] = ResourceManager_new cfg"
  by (simp add: run_def)

lemma config_processQueue_loop [simp]: "config (processQueue_loop s) = config s"
  by (rule processQueue_loop_rule [where P = "\<lambda>t. config t = config s"]) simp_all

lemma config_processQueue [simp]: "config (processQueue s) = config s"
  by (simp add: processQueue_def)

lemma config_step [simp]: "config (step s e) = config s"
  by (cases e)
     (auto simp: requestBrowserLaunch_def enqueue_def Let_def releaseBrowser_def
        release_counters_def timer_fired_def removeFromQueue_def clearQueue_def
        split: option.splits)

lemma config_run [simp]: "config (run cfg evs) = cfg"
  by (induction evs rule: rev_induct) (simp_all add: run_snoc run_Nil ResourceManager_new_def)

subsection \<open>The active-instance counter\<close>

lemma capacity_process_one:
  "capacity_ok s \<Longrightarrow> activeBrowsers s < maxConcurrentBrowsers (config s) \<Longrightarrow>
   capacity_ok (process_one operation (s\<lparr> queue := rest \<rparr>))"
  by (simp add: capacity_ok_def process_one_def Let_def split: option.splits)

lemma capacity_processQueue: "capacity_ok s \<Longrightarrow> capacity_ok (processQueue s)"
  by (rule processQueue_rule [where P = capacity_ok])
     (simp_all add: capacity_process_one, simp add: capacity_ok_def)

lemma capacity_step: "capacity_ok s \<Longrightarrow> capacity_ok (step s e)"
proof (cases e)
  case (RequestLaunch uid prio now)
  assume "capacity_ok s"
  then show ?thesis using RequestLaunch
    by (auto simp: capacity_ok_def requestBrowserLaunch_def enqueue_def Let_def
        split: option.splits)
next
  case (Release uid)
  assume a: "capacity_ok s"
  then have "capacity_ok (release_counters uid s)"
    by (simp add: capacity_ok_def release_counters_def)
  then show ?thesis using Release
    by (simp add: releaseBrowser_def capacity_processQueue)
next
  case (TimerFired n)
  assume "capacity_ok s"
  then show ?thesis using TimerFired
    by (simp add: capacity_ok_def timer_fired_def removeFromQueue_def Let_def)
next
  case ClearQueue
  assume "capacity_ok s"
  then show ?thesis using ClearQueue by (simp add: capacity_ok_def clearQueue_def)
qed

lemma capacity_run:
  "0 \<le> maxConcurrentBrowsers cfg \<Longrightarrow> capacity_ok (run cfg evs)"
proof (induction evs rule: rev_induct)
  case Nil
  then show ?case by (simp add: run_Nil capacity_ok_def ResourceManager_new_def)
next
  case (snoc e evs)
  then show ?case by (simp add: run_snoc capacity_step)
qed

text \<open>
  C2: along every sequence of calls of \<^verbatim>\<open>requestBrowserLaunch\<close> and \<^verbatim>\<open>releaseBrowser\<close>
  (with the queue processing that a release triggers, and with timers firing and the queue
  being cleared in between), the counter \<open>activeBrowsers\<close> stays between zero and the
  configured \<open>maxConcurrentBrowsers\<close>. The configured limit is a count, so it is not
  negative.
\<close>

theorem activeBrowsers_bounded:
  "0 \<le> maxConcurrentBrowsers cfg \<Longrightarrow>
   0 \<le> activeBrowsers (run cfg evs) \<and>
   activeBrowsers (run cfg evs) \<le> maxConcurrentBrowsers cfg"
  using capacity_run [of cfg evs] by (simp add: capacity_ok_def)

theorem activeBrowsers_bounded_witness:
  "0 \<le> maxConcurrentBrowsers example_config \<and>
   0 \<le> activeBrowsers
         (run example_config [RequestLaunch None 0 0, RequestLaunch None 0 1, Release None]) \<and>
   activeBrowsers
         (run example_config [RequestLaunch None 0 0, RequestLaunch None 0 1, Release None])
     \<le> maxConcurrentBrowsers example_config"
  using activeBrowsers_bounded
          [of example_config "[RequestLaunch None 0 0, RequestLaunch None 0 1, Release None]"]
  by (simp add: example_config_def)

subsection \<open>The length of the queue\<close>

lemma length_insert_sorted [simp]: "length (insert_sorted cmp x xs) = Suc (length xs)"
  by (induction xs) simp_all

lemma length_stable_sort [simp]: "length (stable_sort cmp xs) = length xs"
  by (induction xs) (simp_all add: stable_sort_def)

lemma length_remove_first: "length (remove_first P xs) \<le> length xs"
  by (induction xs) auto

lemma queue_bounded_processQueue: "queue_bounded s \<Longrightarrow> queue_bounded (processQueue s)"
  by (rule processQueue_rule [where P = queue_bounded])
     (simp_all add: queue_bounded_def)

lemma queue_bounded_step: "queue_bounded s \<Longrightarrow> queue_bounded (step s e)"
proof (cases e)
  case (RequestLaunch uid prio now)
  assume "queue_bounded s"
  then show ?thesis using RequestLaunch
    by (auto simp: queue_bounded_def requestBrowserLaunch_def enqueue_def Let_def
        split: option.splits)
next
  case (Release uid)
  assume "queue_bounded s"
  then have "queue_bounded (release_counters uid s)"
    by (simp add: queue_bounded_def release_counters_def)
  then show ?thesis using Release
    by (simp add: releaseBrowser_def queue_bounded_processQueue)
next
  case (TimerFired n)
  assume "queue_bounded s"
  then show ?thesis using TimerFired
      length_remove_first [of "\<lambda>operation. op_id operation = n" "queue s"]
    by (simp add: queue_bounded_def timer_fired_def removeFromQueue_def Let_def)
next
  case ClearQueue
  assume "queue_bounded s"
  then show ?thesis using ClearQueue by (simp add: queue_bounded_def clearQueue_def)
qed

lemma queue_bounded_run: "0 \<le> maxQueueSize cfg \<Longrightarrow> queue_bounded (run cfg evs)"
proof (induction evs rule: rev_induct)
  case Nil
  then show ?case by (simp add: run_Nil queue_bounded_def ResourceManager_new_def)
next
  case (snoc e evs)
  then show ?case by (simp add: run_snoc queue_bounded_step)
qed

text \<open>
  C7: the queue never holds more than \<open>maxQueueSize\<close> operations, and whenever the
  browsers are all in use and the queue holds \<open>maxQueueSize\<close> entries,
  \<^verbatim>\<open>requestBrowserLaunch\<close> throws the queue-full error and leaves the manager as it was.
\<close>

theorem queue_never_exceeds_maxQueueSize:
  assumes "0 \<le> maxQueueSize cfg"
  shows "int (length (queue (run cfg evs))) \<le> maxQueueSize cfg \<and>
     (\<forall>uid prio now.
        maxConcurrentBrowsers cfg \<le> activeBrowsers (run cfg evs) \<and>
        maxQueueSize cfg \<le> int (length (queue (run cfg evs))) \<longrightarrow>
        requestBrowserLaunch uid prio now (run cfg evs) = (Failed QueueFull, run cfg evs))"
  using queue_bounded_run [OF assms, of evs]
  by (simp add: queue_bounded_def requestBrowserLaunch_def)

theorem queue_never_exceeds_maxQueueSize_witness:
  "0 \<le> maxQueueSize example_config \<and>
   int (length (queue (run example_config
      [RequestLaunch None 0 0, RequestLaunch None 0 1, RequestLaunch None 0 2,
       RequestLaunch None 0 3]))) \<le> maxQueueSize example_config \<and>
   requestBrowserLaunch None 0 4 (run example_config
      [RequestLaunch None 0 0, RequestLaunch None 0 1, RequestLaunch None 0 2,
       RequestLaunch None 0 3])
     = (Failed QueueFull, run example_config
      [RequestLaunch None 0 0, RequestLaunch None 0 1, RequestLaunch None 0 2,
       RequestLaunch None 0 3])"
proof -
  let ?evs = "[RequestLaunch None 0 0, RequestLaunch None 0 1, RequestLaunch None 0 2,
       RequestLaunch None 0 3]"
  have q: "length (queue (run example_config ?evs)) = 2"
    and a: "activeBrowsers (run example_config ?evs) = 1"
    by (simp_all add: run_def example_config_def ResourceManager_new_def
        requestBrowserLaunch_def enqueue_def user_of_def stable_sort_def compare_ops_def)
  have m: "0 \<le> maxQueueSize example_config" by (simp add: example_config_def)
  from queue_never_exceeds_maxQueueSize [OF m, of ?evs] q a m
  show ?thesis by (simp add: example_config_def)
qed

subsection \<open>The outcomes of queued operations\<close>

lemma set_insert_sorted [simp]: "set (insert_sorted cmp x xs) = insert x (set xs)"
  by (induction xs) auto

lemma set_stable_sort [simp]: "set (stable_sort cmp xs) = set xs"
  by (induction xs) (simp_all add: stable_sort_def)

lemma distinct_map_insert_sorted [simp]:
  "distinct (map f (insert_sorted cmp x xs)) = (f x \<notin> f ` set xs \<and> distinct (map f xs))"
  by (induction xs) auto

lemma distinct_map_stable_sort [simp]:
  "distinct (map f (stable_sort cmp xs)) = distinct (map f xs)"
proof (induction xs)
  case Nil
  show ?case by (simp add: stable_sort_def)
next
  case (Cons x xs)
  have "stable_sort cmp (x # xs) = insert_sorted cmp x (stable_sort cmp xs)"
    by (simp add: stable_sort_def)
  then show ?case using Cons by simp
qed

lemma map_remove_first:
  "map f (remove_first (\<lambda>y. f y = n) xs) = remove1 n (map f xs)"
  by (induction xs) auto

lemma outcomes_ok_new: "outcomes_ok (ResourceManager_new cfg)"
  by (simp add: outcomes_ok_def ResourceManager_new_def)

lemma outcomes_ok_enqueue:
  assumes "outcomes_ok s"
  shows "outcomes_ok (snd (enqueue ty uid prio now s))"
proof -
  let ?n = "nextOperationId s"
  have fresh_q: "?n \<notin> op_id ` set (queue s)" and fresh_s: "?n \<notin> fst ` set (settled s)"
    using assms unfolding outcomes_ok_def by (metis UnI1 UnI2 atLeastLessThan_iff less_irrefl)+
  have un: "{1..<Suc ?n} = insert ?n {1..<?n}"
    using assms unfolding outcomes_ok_def by (auto simp: atLeastLessThanSuc)
  show ?thesis
    using assms fresh_q fresh_s un unfolding outcomes_ok_def
    by (simp add: enqueue_def Let_def)
qed

lemma outcomes_ok_process_one:
  assumes "outcomes_ok s" and q: "queue s = operation # rest"
  shows "outcomes_ok (process_one operation (s\<lparr> queue := rest \<rparr>))"
proof -
  let ?n = "op_id operation"
  have nq: "?n \<notin> op_id ` set rest" and ns: "?n \<notin> fst ` set (settled s)"
    using assms unfolding outcomes_ok_def by auto
  have t: "timers s - {?n} = op_id ` set rest"
    using assms nq unfolding outcomes_ok_def by auto
  have u: "op_id ` set rest \<union> insert ?n (fst ` set (settled s)) = {1..<nextOperationId s}"
    using assms unfolding outcomes_ok_def by auto
  have d: "op_id ` set rest \<inter> fst ` set (settled s) = {}"
    using assms unfolding outcomes_ok_def by auto
  have rest: "1 \<le> nextOperationId s" "distinct (map op_id rest)"
    "distinct (map fst (settled s))" "list_all valid_outcome (settled s)"
    using assms unfolding outcomes_ok_def by auto
  show ?thesis
    unfolding outcomes_ok_def process_one_def Let_def
    using nq ns t u d rest
    by (simp add: valid_outcome_def split: option.splits)
qed

lemma outcomes_ok_processQueue: "outcomes_ok s \<Longrightarrow> outcomes_ok (processQueue s)"
  by (rule processQueue_rule [where P = outcomes_ok])
     (simp_all add: outcomes_ok_process_one, simp add: outcomes_ok_def)

lemma outcomes_ok_timer_fired:
  assumes "outcomes_ok s"
  shows "outcomes_ok (timer_fired n s)"
proof (cases "n \<in> timers s")
  case False
  then show ?thesis using assms by (simp add: timer_fired_def)
next
  case True
  then have inq: "n \<in> op_id ` set (queue s)" using assms by (simp add: outcomes_ok_def)
  then have ex: "list_ex (\<lambda>operation. op_id operation = n) (queue s)"
    by (auto simp: list_ex_iff)
  let ?q = "remove_first (\<lambda>operation. op_id operation = n) (queue s)"
  have m: "map op_id ?q = remove1 n (map op_id (queue s))" by (rule map_remove_first)
  have dq: "distinct (map op_id (queue s))" using assms by (simp add: outcomes_ok_def)
  have sq: "op_id ` set ?q = op_id ` set (queue s) - {n}"
    using dq m by (metis set_map set_remove1_eq)
  have dq': "distinct (map op_id ?q)" using dq m by simp
  have ns: "n \<notin> fst ` set (settled s)" using assms inq unfolding outcomes_ok_def by auto
  have u: "(op_id ` set (queue s) - {n}) \<union> insert n (fst ` set (settled s))
             = {1..<nextOperationId s}"
    using assms inq unfolding outcomes_ok_def by auto
  have d: "(op_id ` set (queue s) - {n}) \<inter> fst ` set (settled s) = {}"
    using assms unfolding outcomes_ok_def by auto
  have rest: "1 \<le> nextOperationId s" "timers s = op_id ` set (queue s)"
    "distinct (map fst (settled s))" "list_all valid_outcome (settled s)"
    using assms unfolding outcomes_ok_def by auto
  show ?thesis
    unfolding outcomes_ok_def timer_fired_def removeFromQueue_def Let_def
    using True ex sq dq' ns u d rest
    by (simp add: valid_outcome_def) 
qed

lemma outcomes_ok_clearQueue:
  assumes "outcomes_ok s"
  shows "outcomes_ok (snd (clearQueue s))"
proof -
  let ?new = "map (\<lambda>operation. (op_id operation, Rejected QueueCleared)) (queue s)"
  have m: "map fst ?new = map op_id (queue s)"
    by simp
  then have im: "fst ` set ?new = op_id ` set (queue s)"
    by (metis set_map)
  have v: "list_all valid_outcome ?new"
    by (simp add: list_all_iff valid_outcome_def)
  have d: "distinct (map fst (settled s @ ?new))"
    using assms m unfolding outcomes_ok_def
    by (simp only: map_append distinct_append set_map) blast
  have u: "fst ` set (settled s @ ?new) = {1..<nextOperationId s}"
    using assms im unfolding outcomes_ok_def by (simp only: set_append image_Un) blast
  have n: "1 \<le> nextOperationId s" and v0: "list_all valid_outcome (settled s)"
    using assms unfolding outcomes_ok_def by simp_all
  show ?thesis
    unfolding outcomes_ok_def clearQueue_def
    using d u v v0 n assms by (simp add: outcomes_ok_def)
qed

lemma outcomes_ok_step: "outcomes_ok s \<Longrightarrow> outcomes_ok (step s e)"
proof (cases e)
  case (RequestLaunch uid prio now)
  assume a: "outcomes_ok s"
  have grant: "\<And>f g. outcomes_ok (s\<lparr> activeBrowsers := f, sessionsByUser := g \<rparr>)"
    "\<And>f. outcomes_ok (s\<lparr> activeBrowsers := f \<rparr>)"
    using a by (simp_all add: outcomes_ok_def)
  show ?thesis using RequestLaunch a grant outcomes_ok_enqueue [OF a]
    by (simp add: requestBrowserLaunch_def split: option.splits)
next
  case (Release uid)
  assume "outcomes_ok s"
  then have "outcomes_ok (release_counters uid s)"
    by (simp add: outcomes_ok_def release_counters_def)
  then show ?thesis using Release
    by (simp add: releaseBrowser_def outcomes_ok_processQueue)
next
  case (TimerFired n)
  assume "outcomes_ok s"
  then show ?thesis using TimerFired by (simp add: outcomes_ok_timer_fired)
next
  case ClearQueue
  assume "outcomes_ok s"
  then show ?thesis using ClearQueue by (simp add: outcomes_ok_clearQueue)
qed

lemma outcomes_ok_run: "outcomes_ok (run cfg evs)"
  by (induction evs rule: rev_induct)
     (simp_all add: run_Nil run_snoc outcomes_ok_new outcomes_ok_step)

lemma timer_fired_delivers:
  assumes "outcomes_ok s" and "n \<in> op_id ` set (queue s)"
  shows "n \<in> timers s \<and> (n, Rejected (OpTimeout n)) \<in> set (settled (timer_fired n s))
         \<and> n \<notin> op_id ` set (queue (timer_fired n s))"
proof -
  have t: "n \<in> timers s" using assms by (simp add: outcomes_ok_def)
  have "outcomes_ok (timer_fired n s)" using assms(1) by (rule outcomes_ok_timer_fired)
  moreover have s: "(n, Rejected (OpTimeout n)) \<in> set (settled (timer_fired n s))"
    using t by (simp add: timer_fired_def Let_def)
  ultimately have "n \<notin> op_id ` set (queue (timer_fired n s))"
    unfolding outcomes_ok_def by (metis disjoint_iff fst_conv image_eqI)
  with t s show ?thesis by simp
qed

text \<open>
  C4: every queued request gets exactly one outcome. Along every run no operation is
  settled twice (so none is both granted and timed out), every settlement is a grant, a
  per-user-limit or queue-cleared rejection, or the time-out of that very operation, and
  every operation issued so far is either waiting in the queue or settled, never both: its
  entry leaves the queue when its outcome is delivered. A waiting operation has its timer
  armed, and the firing of that timer delivers the time-out and removes the entry, so an
  outcome is never withheld.
\<close>

theorem one_outcome_per_request:
  "distinct (map fst (settled (run cfg evs))) \<and>
   list_all valid_outcome (settled (run cfg evs)) \<and>
   (\<forall>n. 1 \<le> n \<and> n < nextOperationId (run cfg evs) \<longrightarrow>
        (n \<in> op_id ` set (queue (run cfg evs))) \<noteq> (n \<in> fst ` set (settled (run cfg evs)))) \<and>
   (\<forall>n \<in> op_id ` set (queue (run cfg evs)).
        n \<in> timers (run cfg evs) \<and>
        (n, Rejected (OpTimeout n)) \<in> set (settled (timer_fired n (run cfg evs))) \<and>
        n \<notin> op_id ` set (queue (timer_fired n (run cfg evs))))"
proof -
  have ok: "outcomes_ok (run cfg evs)" by (rule outcomes_ok_run)
  have a: "distinct (map fst (settled (run cfg evs)))"
    and b: "list_all valid_outcome (settled (run cfg evs))"
    using ok by (simp_all add: outcomes_ok_def)
  have c: "\<forall>n. 1 \<le> n \<and> n < nextOperationId (run cfg evs) \<longrightarrow>
        (n \<in> op_id ` set (queue (run cfg evs))) \<noteq> (n \<in> fst ` set (settled (run cfg evs)))"
    using ok unfolding outcomes_ok_def
    by (metis UnE atLeastLessThan_iff disjoint_iff)
  have d: "\<forall>n \<in> op_id ` set (queue (run cfg evs)).
        n \<in> timers (run cfg evs) \<and>
        (n, Rejected (OpTimeout n)) \<in> set (settled (timer_fired n (run cfg evs))) \<and>
        n \<notin> op_id ` set (queue (timer_fired n (run cfg evs)))"
    using timer_fired_delivers [OF ok] by blast
  from a b c d show ?thesis by blast
qed


theorem one_outcome_per_request_witness:
  "distinct (map fst (settled (run example_config
       [RequestLaunch None 0 0, RequestLaunch (Some ''u'') 0 1]))) \<and>
   (1::nat) \<le> 1 \<and>
   1 < nextOperationId (run example_config
       [RequestLaunch None 0 0, RequestLaunch (Some ''u'') 0 1]) \<and>
   1 \<in> op_id ` set (queue (run example_config
       [RequestLaunch None 0 0, RequestLaunch (Some ''u'') 0 1])) \<and>
   1 \<notin> fst ` set (settled (run example_config
       [RequestLaunch None 0 0, RequestLaunch (Some ''u'') 0 1])) \<and>
   1 \<in> timers (run example_config
       [RequestLaunch None 0 0, RequestLaunch (Some ''u'') 0 1]) \<and>
   (1, Rejected (OpTimeout 1)) \<in> set (settled (timer_fired 1 (run example_config
       [RequestLaunch None 0 0, RequestLaunch (Some ''u'') 0 1]))) \<and>
   1 \<notin> op_id ` set (queue (timer_fired 1 (run example_config
       [RequestLaunch None 0 0, RequestLaunch (Some ''u'') 0 1])))"
proof -
  let ?s = "run example_config [RequestLaunch None 0 0, RequestLaunch (Some ''u'') 0 1]"
  have q: "op_id ` set (queue ?s) = {1}" and nx: "nextOperationId ?s = 2"
    by (simp_all add: run_def example_config_def ResourceManager_new_def
        requestBrowserLaunch_def enqueue_def user_of_def stable_sort_def compare_ops_def)
  have m: "(1::nat) \<in> op_id ` set (queue ?s)" using q by simp
  note inst = one_outcome_per_request [of example_config
        "[RequestLaunch None 0 0, RequestLaunch (Some ''u'') 0 1]"]
  have a: "distinct (map fst (settled ?s))" using inst by (rule conjunct1)
  have b: "(1 \<in> op_id ` set (queue ?s)) \<noteq> (1 \<in> fst ` set (settled ?s))"
    using inst nx by simp
  have c: "1 \<in> timers ?s \<and>
        (1, Rejected (OpTimeout 1)) \<in> set (settled (timer_fired 1 ?s)) \<and>
        1 \<notin> op_id ` set (queue (timer_fired 1 ?s))"
    using inst m by blast
  from b m have ns: "1 \<notin> fst ` set (settled ?s)" by blast
  from a m ns c nx show ?thesis by simp
qed

subsection \<open>The order of service\<close>

lemma precedes_trans: "precedes a b \<Longrightarrow> precedes b c \<Longrightarrow> precedes a c"
  unfolding precedes_def by auto

lemma compare_pos_precedes: "\<not> compare_ops x y \<le> 0 \<Longrightarrow> precedes y x"
  unfolding precedes_def compare_ops_def by (auto split: if_splits)

lemma compare_le_precedes:
  "compare_ops x y \<le> 0 \<Longrightarrow> op_id x < op_id y \<Longrightarrow> precedes x y"
  unfolding precedes_def compare_ops_def by (auto split: if_splits)

lemma sorted_insert_sorted:
  assumes "sorted_wrt precedes ys"
    and "\<forall>y \<in> set ys. compare_ops x y \<le> 0 \<longrightarrow> precedes x y"
  shows "sorted_wrt precedes (insert_sorted compare_ops x ys)"
  using assms
proof (induction ys)
  case Nil
  then show ?case by simp
next
  case (Cons y ys)
  show ?case
  proof (cases "compare_ops x y \<le> 0")
    case True
    then have xy: "precedes x y" using Cons.prems(2) by simp
    have "\<forall>z \<in> set ys. precedes y z" using Cons.prems(1) by simp
    then have "\<forall>z \<in> set ys. precedes x z" using xy precedes_trans by blast
    then show ?thesis using True xy Cons.prems(1) by simp
  next
    case False
    then have yx: "precedes y x" by (rule compare_pos_precedes)
    have ih: "sorted_wrt precedes (insert_sorted compare_ops x ys)"
      using Cons by simp
    show ?thesis using False yx ih Cons.prems(1) by simp
  qed
qed

lemma stable_sort_Cons:
  "stable_sort cmp (x # xs) = insert_sorted cmp x (stable_sort cmp xs)"
  by (simp add: stable_sort_def)

lemma sorted_stable_sort_snoc:
  assumes "sorted_wrt precedes q" and "\<forall>y \<in> set q. op_id y < op_id x"
  shows "sorted_wrt precedes (stable_sort compare_ops (q @ [x]))"
  using assms
proof (induction q)
  case Nil
  then show ?case by (simp add: stable_sort_def)
next
  case (Cons y q)
  have ih: "sorted_wrt precedes (stable_sort compare_ops (q @ [x]))"
    using Cons by simp
  have "\<forall>z \<in> set (stable_sort compare_ops (q @ [x])). compare_ops y z \<le> 0 \<longrightarrow> precedes y z"
    using Cons.prems compare_le_precedes by auto
  with ih have "sorted_wrt precedes (insert_sorted compare_ops y (stable_sort compare_ops (q @ [x])))"
    by (rule sorted_insert_sorted)
  then show ?case by (simp add: stable_sort_Cons)
qed

lemma set_remove_first_subset: "set (remove_first P xs) \<subseteq> set xs"
  by (induction xs) auto

lemma sorted_wrt_remove_first:
  "sorted_wrt R xs \<Longrightarrow> sorted_wrt R (remove_first P xs)"
proof (induction xs)
  case Nil
  then show ?case by simp
next
  case (Cons x xs)
  then show ?case using set_remove_first_subset [of P xs] by auto
qed

lemma queue_sorted_new: "queue_sorted (ResourceManager_new cfg)"
  by (simp add: queue_sorted_def ResourceManager_new_def)

lemma queue_sorted_enqueue:
  assumes "queue_sorted s"
  shows "queue_sorted (snd (enqueue ty uid prio now s))"
proof -
  let ?x = "\<lparr> op_id = nextOperationId s, op_type = ty, userId = uid, priority = prio,
              createdAt = now \<rparr>"
  have "sorted_wrt precedes (stable_sort compare_ops (queue s @ [?x]))"
    using assms by (intro sorted_stable_sort_snoc) (simp_all add: queue_sorted_def)
  then show ?thesis using assms
    by (auto simp: queue_sorted_def enqueue_def Let_def less_Suc_eq)
qed

lemma queue_sorted_process_one:
  "queue_sorted s \<Longrightarrow> queue s = operation # rest \<Longrightarrow>
   queue_sorted (process_one operation (s\<lparr> queue := rest \<rparr>))"
  by (simp add: queue_sorted_def)

lemma queue_sorted_processQueue: "queue_sorted s \<Longrightarrow> queue_sorted (processQueue s)"
proof (rule processQueue_rule [where P = queue_sorted])
  fix s b show "queue_sorted (s\<lparr> processing := b \<rparr>) = queue_sorted s"
    by (simp add: queue_sorted_def)
qed (simp_all add: queue_sorted_process_one)

lemma nextOperationId_processQueue [simp]:
  "nextOperationId (processQueue s) = nextOperationId s"
proof -
  have "nextOperationId (processQueue_loop t) = nextOperationId t" for t
    by (rule processQueue_loop_rule [where P = "\<lambda>u. nextOperationId u = nextOperationId t"])
       simp_all
  then show ?thesis by (simp add: processQueue_def)
qed

lemma queue_sorted_step: "queue_sorted s \<Longrightarrow> queue_sorted (step s e)"
proof (cases e)
  case (RequestLaunch uid prio now)
  assume a: "queue_sorted s"
  have grant: "\<And>f g. queue_sorted (s\<lparr> activeBrowsers := f, sessionsByUser := g \<rparr>)"
    "\<And>f. queue_sorted (s\<lparr> activeBrowsers := f \<rparr>)"
    using a by (simp_all add: queue_sorted_def)
  show ?thesis using RequestLaunch a grant queue_sorted_enqueue [OF a]
    by (simp add: requestBrowserLaunch_def split: option.splits)
next
  case (Release uid)
  assume "queue_sorted s"
  then have "queue_sorted (release_counters uid s)"
    by (simp add: queue_sorted_def release_counters_def)
  then show ?thesis using Release
    by (simp add: releaseBrowser_def queue_sorted_processQueue)
next
  case (TimerFired n)
  assume a: "queue_sorted s"
  then have "sorted_wrt precedes (remove_first (\<lambda>operation. op_id operation = n) (queue s))"
    by (simp add: queue_sorted_def sorted_wrt_remove_first)
  then show ?thesis using TimerFired a
      set_remove_first_subset [of "\<lambda>operation. op_id operation = n" "queue s"]
    by (auto simp: queue_sorted_def timer_fired_def removeFromQueue_def Let_def)
next
  case ClearQueue
  assume "queue_sorted s"
  then show ?thesis using ClearQueue by (simp add: queue_sorted_def clearQueue_def)
qed

lemma queue_sorted_run: "queue_sorted (run cfg evs)"
  by (induction evs rule: rev_induct)
     (simp_all add: run_Nil run_snoc queue_sorted_new queue_sorted_step)

lemma processQueue_loop_exhausts:
  "queue (processQueue_loop s) = [] \<or>
   maxConcurrentBrowsers (config s) \<le> activeBrowsers (processQueue_loop s)"
proof (induction s rule: processQueue_loop.induct)
  case (1 s)
  show ?case
  proof (cases "queue s")
    case Nil
    then show ?thesis by (simp add: processQueue_loop_Nil)
  next
    case (Cons operation rest)
    show ?thesis
    proof (cases "activeBrowsers s < maxConcurrentBrowsers (config s)")
      case True
      show ?thesis using 1 [OF Cons True] Cons True
        by (simp add: processQueue_loop_Cons)
    next
      case False
      then show ?thesis by (simp add: processQueue_loop_full)
    qed
  qed
qed

lemma processing_processQueue [simp]: "\<not> processing s \<Longrightarrow> \<not> processing (processQueue s)"
  by (simp add: processQueue_def)

lemma waits_processQueue:
  assumes "\<not> processing s"
  shows "waits_only_when_full (processQueue s)"
proof (cases "queue s = []")
  case True
  then show ?thesis using assms by (simp add: processQueue_def waits_only_when_full_def)
next
  case False
  then show ?thesis
    using assms processQueue_loop_exhausts [of "s\<lparr> processing := True \<rparr>"]
    by (auto simp: processQueue_def waits_only_when_full_def)
qed

lemma waits_step: "waits_only_when_full s \<Longrightarrow> waits_only_when_full (step s e)"
proof (cases e)
  case (RequestLaunch uid prio now)
  assume "waits_only_when_full s"
  then show ?thesis using RequestLaunch
    by (auto simp: waits_only_when_full_def requestBrowserLaunch_def enqueue_def Let_def
        split: option.splits)
next
  case (Release uid)
  assume "waits_only_when_full s"
  then have "\<not> processing (release_counters uid s)"
    by (simp add: waits_only_when_full_def release_counters_def)
  then show ?thesis using Release by (simp add: releaseBrowser_def waits_processQueue)
next
  case (TimerFired n)
  assume "waits_only_when_full s"
  then show ?thesis using TimerFired
    by (auto simp: waits_only_when_full_def timer_fired_def removeFromQueue_def Let_def
        list_ex_iff)
next
  case ClearQueue
  assume "waits_only_when_full s"
  then show ?thesis using ClearQueue by (simp add: waits_only_when_full_def clearQueue_def)
qed

lemma waits_run: "waits_only_when_full (run cfg evs)"
  by (induction evs rule: rev_induct)
     (simp_all add: run_Nil run_snoc waits_step,
      simp add: waits_only_when_full_def ResourceManager_new_def)

lemma process_one_ineligible:
  assumes "\<not> eligible (config s) (sessionsByUser s) operation"
  shows "process_one operation s =
     s\<lparr> timers := timers s - {op_id operation},
        settled := settled s @ [limit_rejection operation] \<rparr>"
proof (cases "user_of (userId operation)")
  case None
  then show ?thesis using assms by (simp add: eligible_def)
next
  case (Some u)
  then have "maxSessionsPerUser (config s) \<le> count_or_0 (sessionsByUser s) u"
    using assms by (simp add: eligible_def)
  then show ?thesis using Some
    by (simp add: process_one_def limit_rejection_def Let_def)
qed

lemma process_one_eligible:
  assumes "eligible (config s) (sessionsByUser s) operation"
  shows "activeBrowsers (process_one operation s) = activeBrowsers s + 1 \<and>
     settled (process_one operation s) = settled s @ [(op_id operation, Resolved)]"
proof (cases "user_of (userId operation)")
  case None
  then show ?thesis by (simp add: process_one_def Let_def)
next
  case (Some u)
  then have "\<not> maxSessionsPerUser (config s) \<le> count_or_0 (sessionsByUser s) u"
    using assms by (simp add: eligible_def)
  then show ?thesis using Some by (simp add: process_one_def Let_def)
qed

lemma loop_grants_first_eligible:
  assumes "queue t = pre @ g # post"
    and "\<forall>operation \<in> set pre. \<not> eligible (config t) (sessionsByUser t) operation"
    and "eligible (config t) (sessionsByUser t) g"
    and "activeBrowsers t + 1 = maxConcurrentBrowsers (config t)"
  shows "queue (processQueue_loop t) = post \<and>
     settled (processQueue_loop t)
       = settled t @ map limit_rejection pre @ [(op_id g, Resolved)]"
  using assms
proof (induction pre arbitrary: t)
  case Nil
  let ?t1 = "process_one g (t\<lparr> queue := post \<rparr>)"
  have lt: "activeBrowsers t < maxConcurrentBrowsers (config t)" using Nil.prems(4) by simp
  have q: "queue t = g # post" using Nil.prems(1) by simp
  have e: "eligible (config (t\<lparr> queue := post \<rparr>)) (sessionsByUser (t\<lparr> queue := post \<rparr>)) g"
    using Nil.prems(3) by simp
  have full: "\<not> activeBrowsers ?t1 < maxConcurrentBrowsers (config ?t1)"
    using process_one_eligible [OF e] Nil.prems(4) by simp
  have "processQueue_loop t = ?t1"
    using processQueue_loop_Cons [OF q lt] processQueue_loop_full [OF full] by simp
  then show ?case using process_one_eligible [OF e] by simp
next
  case (Cons operation pre)
  let ?t0 = "t\<lparr> queue := pre @ g # post \<rparr>"
  let ?t1 = "process_one operation ?t0"
  have lt: "activeBrowsers t < maxConcurrentBrowsers (config t)" using Cons.prems(4) by simp
  have q: "queue t = operation # (pre @ g # post)" using Cons.prems(1) by simp
  have ne: "\<not> eligible (config ?t0) (sessionsByUser ?t0) operation"
    using Cons.prems(2) by simp
  have t1: "?t1 = ?t0\<lparr> timers := timers ?t0 - {op_id operation},
                       settled := settled ?t0 @ [limit_rejection operation] \<rparr>"
    by (rule process_one_ineligible [OF ne])
  have "queue (processQueue_loop ?t1) = post \<and>
     settled (processQueue_loop ?t1)
       = settled ?t1 @ map limit_rejection pre @ [(op_id g, Resolved)]"
  proof (rule Cons.IH)
    show "queue ?t1 = pre @ g # post" by simp
    show "\<forall>operation \<in> set pre. \<not> eligible (config ?t1) (sessionsByUser ?t1) operation"
      using Cons.prems(2) by (simp add: t1)
    show "eligible (config ?t1) (sessionsByUser ?t1) g"
      using Cons.prems(3) by (simp add: t1)
    show "activeBrowsers ?t1 + 1 = maxConcurrentBrowsers (config ?t1)"
      using Cons.prems(4) by (simp add: t1)
  qed
  moreover have "processQueue_loop t = processQueue_loop ?t1"
    by (rule processQueue_loop_Cons [OF q lt])
  moreover have "settled ?t1 = settled t @ [limit_rejection operation]"
    by (simp add: t1)
  ultimately show ?case by simp
qed


text \<open>
  C5: in any reachable state with a limit of at least one browser, when a release finds
  waiting requests of which some is eligible (its user, after the release, is below the
  per-user limit, or it names no user), exactly one request is granted: the first
  eligible one of the queue. The ineligible requests in front of it are rejected, the
  requests behind it keep waiting, and every other eligible waiting request has a lower
  priority, or the same priority and a later creation time, or the same priority and
  creation time and a later arrival.
\<close>

theorem release_grants_best_waiting_request:
  assumes "1 \<le> maxConcurrentBrowsers cfg"
    and "\<exists>operation \<in> set (queue (run cfg evs)).
           eligible cfg (sessionsByUser (release_counters uid (run cfg evs))) operation"
  shows "\<exists>pre g post.
     queue (run cfg evs) = pre @ g # post \<and>
     (\<forall>operation \<in> set pre.
        \<not> eligible cfg (sessionsByUser (release_counters uid (run cfg evs))) operation) \<and>
     eligible cfg (sessionsByUser (release_counters uid (run cfg evs))) g \<and>
     settled (releaseBrowser uid (run cfg evs))
       = settled (run cfg evs) @ map limit_rejection pre @ [(op_id g, Resolved)] \<and>
     queue (releaseBrowser uid (run cfg evs)) = post \<and>
     (\<forall>operation \<in> set (queue (run cfg evs)).
        eligible cfg (sessionsByUser (release_counters uid (run cfg evs))) operation \<and>
        operation \<noteq> g \<longrightarrow>
        priority operation < priority g \<or>
        (priority operation = priority g \<and>
         (createdAt g < createdAt operation \<or>
          (createdAt g = createdAt operation \<and> op_id g < op_id operation))))"
proof -
  let ?s = "run cfg evs"
  let ?r = "release_counters uid ?s"
  let ?E = "eligible cfg (sessionsByUser ?r)"
  obtain pre g post where split: "queue ?s = pre @ g # post"
    and g: "?E g" and pre: "\<forall>operation \<in> set pre. \<not> ?E operation"
    using assms(2) by (metis split_list_first_prop)
  have ne: "queue ?s \<noteq> []" using split by simp
  have "capacity_ok ?s" using assms(1) by (intro capacity_run) simp
  moreover have "maxConcurrentBrowsers cfg \<le> activeBrowsers ?s"
    using waits_run [of cfg evs] ne by (simp add: waits_only_when_full_def)
  ultimately have ab: "activeBrowsers ?s = maxConcurrentBrowsers cfg"
    by (simp add: capacity_ok_def)
  have np: "\<not> processing ?s" using waits_run [of cfg evs] by (simp add: waits_only_when_full_def)
  let ?t = "?r\<lparr> processing := True \<rparr>"
  have cfg_t: "config ?t = cfg" by (simp add: release_counters_def)
  have users_t: "sessionsByUser ?t = sessionsByUser ?r" by simp
  have loop: "queue (processQueue_loop ?t) = post \<and>
     settled (processQueue_loop ?t) = settled ?t @ map limit_rejection pre @ [(op_id g, Resolved)]"
  proof (rule loop_grants_first_eligible)
    show "queue ?t = pre @ g # post" using split by (simp add: release_counters_def)
    show "\<forall>operation \<in> set pre. \<not> eligible (config ?t) (sessionsByUser ?t) operation"
      using pre by (simp only: cfg_t users_t) 
    show "eligible (config ?t) (sessionsByUser ?t) g"
      using g by (simp only: cfg_t users_t)
    show "activeBrowsers ?t + 1 = maxConcurrentBrowsers (config ?t)"
      using ab assms(1) by (simp add: release_counters_def)
  qed
  have rel: "releaseBrowser uid ?s = (processQueue_loop ?t)\<lparr> processing := False \<rparr>"
    using np ne by (simp add: releaseBrowser_def processQueue_def release_counters_def)
  have st: "settled ?t = settled ?s" by (simp add: release_counters_def)
  have sorted: "sorted_wrt precedes (pre @ g # post)"
    using queue_sorted_run [of cfg evs] split by (simp add: queue_sorted_def)
  have best: "\<forall>operation \<in> set (queue ?s). ?E operation \<and> operation \<noteq> g \<longrightarrow>
        priority operation < priority g \<or>
        (priority operation = priority g \<and>
         (createdAt g < createdAt operation \<or>
          (createdAt g = createdAt operation \<and> op_id g < op_id operation)))"
  proof (intro ballI impI)
    fix operation
    assume mem: "operation \<in> set (queue ?s)" and e: "?E operation \<and> operation \<noteq> g"
    then have "operation \<in> set post" using split pre by auto
    then have "precedes g operation" using sorted by (simp add: sorted_wrt_append)
    then show "priority operation < priority g \<or>
        (priority operation = priority g \<and>
         (createdAt g < createdAt operation \<or>
          (createdAt g = createdAt operation \<and> op_id g < op_id operation)))"
      by (auto simp: precedes_def)
  qed
  show ?thesis
    using split pre g loop rel st best by (intro exI [of _ pre] exI [of _ g] exI [of _ post]) simp
qed

theorem release_grants_best_waiting_request_witness:
  "1 \<le> maxConcurrentBrowsers example_config \<and>
   (\<exists>operation \<in> set (queue (run example_config
        [RequestLaunch None 0 0, RequestLaunch (Some ''a'') 1 5, RequestLaunch (Some ''b'') 7 6])).
      eligible example_config
        (sessionsByUser (release_counters None (run example_config
        [RequestLaunch None 0 0, RequestLaunch (Some ''a'') 1 5, RequestLaunch (Some ''b'') 7 6])))
        operation) \<and>
   map op_id (queue (run example_config
        [RequestLaunch None 0 0, RequestLaunch (Some ''a'') 1 5, RequestLaunch (Some ''b'') 7 6]))
     = [2, 1] \<and>
   settled (releaseBrowser None (run example_config
        [RequestLaunch None 0 0, RequestLaunch (Some ''a'') 1 5, RequestLaunch (Some ''b'') 7 6]))
     = [(2, Resolved)] \<and>
   map op_id (queue (releaseBrowser None (run example_config
        [RequestLaunch None 0 0, RequestLaunch (Some ''a'') 1 5, RequestLaunch (Some ''b'') 7 6])))
     = [1]"
proof -
  let ?evs = "[RequestLaunch None 0 0, RequestLaunch (Some ''a'') 1 5,
               RequestLaunch (Some ''b'') 7 6]"
  let ?s = "run example_config ?evs"
  let ?a = "\<lparr> op_id = 1, op_type = browser_launch, userId = Some ''a'', priority = 1,
              createdAt = 5 \<rparr>"
  let ?b = "\<lparr> op_id = 2, op_type = browser_launch, userId = Some ''b'', priority = 7,
              createdAt = 6 \<rparr>"
  have q: "queue ?s = [?b, ?a]" and u: "sessionsByUser ?s = Map.empty"
    and st: "settled ?s = []"
    by (simp_all add: run_def example_config_def ResourceManager_new_def
        requestBrowserLaunch_def enqueue_def user_of_def stable_sort_def compare_ops_def)
  have m: "1 \<le> maxConcurrentBrowsers example_config" by (simp add: example_config_def)
  have ur: "sessionsByUser (release_counters None ?s) = Map.empty"
    using u by (simp add: release_counters_def user_of_def)
  have ea: "eligible example_config Map.empty ?a" and eb: "eligible example_config Map.empty ?b"
    by (simp_all add: eligible_def user_of_def count_or_0_def example_config_def)
  have ex: "\<exists>operation \<in> set (queue ?s).
      eligible example_config (sessionsByUser (release_counters None ?s)) operation"
    using q ur eb by simp
  obtain pre g post where split: "queue ?s = pre @ g # post"
    and pre: "\<forall>operation \<in> set pre.
        \<not> eligible example_config (sessionsByUser (release_counters None ?s)) operation"
    and res: "settled (releaseBrowser None ?s)
       = settled ?s @ map limit_rejection pre @ [(op_id g, Resolved)]"
    and rest: "queue (releaseBrowser None ?s) = post"
    using release_grants_best_waiting_request [OF m ex] by blast
  have "pre = []"
  proof (cases pre)
    case Nil
    then show ?thesis .
  next
    case (Cons x xs)
    then have "x = ?b" using split q by simp
    then show ?thesis using pre Cons ur eb by simp
  qed
  then have "g = ?b" and "post = [?a]" using split q by simp_all
  then show ?thesis using m ex q res rest st \<open>pre = []\<close> by simp
qed

subsection \<open>The per-user limit\<close>

lemma users_boundedD:
  "users_bounded cfg m \<Longrightarrow> m u = Some c \<Longrightarrow> 1 \<le> c \<and> c \<le> maxSessionsPerUser cfg"
  by (simp add: users_bounded_def)

lemma users_bounded_incr:
  assumes "users_bounded cfg m" and "count_or_0 m u < maxSessionsPerUser cfg"
  shows "users_bounded cfg (m(u \<mapsto> count_or_0 m u + 1))"
proof -
  have "0 \<le> count_or_0 m u"
    using users_boundedD [OF assms(1), of u]
    by (cases "m u") (simp_all add: count_or_0_def)
  then show ?thesis
    using assms unfolding users_bounded_def by auto
qed

lemma users_bounded_first:
  assumes "users_bounded cfg m" and "m u = None" and "1 \<le> maxSessionsPerUser cfg"
  shows "users_bounded cfg (m(u \<mapsto> count_or_0 m u + 1))"
  using assms by (intro users_bounded_incr) (simp_all add: count_or_0_def)

lemma users_bounded_decr:
  assumes "users_bounded cfg m"
  shows "users_bounded cfg
     (if count_or_0 m u > 1 then m(u \<mapsto> count_or_0 m u - 1) else m(u := None))"
  unfolding users_bounded_def
proof (intro allI impI)
  fix v d
  assume a: "(if count_or_0 m u > 1 then m(u \<mapsto> count_or_0 m u - 1) else m(u := None)) v
               = Some d"
  show "1 \<le> d \<and> d \<le> maxSessionsPerUser cfg"
  proof (cases "v = u")
    case False
    then have "m v = Some d" using a by (simp split: if_splits)
    then show ?thesis by (rule users_boundedD [OF assms])
  next
    case True
    then have gt: "count_or_0 m u > 1" and d: "d = count_or_0 m u - 1"
      using a by (simp_all split: if_splits)
    then obtain c where c: "m u = Some c" "count_or_0 m u = c"
      by (cases "m u") (simp_all add: count_or_0_def)
    have "c \<le> maxSessionsPerUser cfg" using users_boundedD [OF assms c(1)] by simp
    then show ?thesis using gt d c by simp
  qed
qed

lemma users_ok_process_one:
  assumes "users_ok s"
  shows "users_ok (process_one operation (s\<lparr> queue := rest \<rparr>))"
proof (cases "user_of (userId operation)")
  case None
  then show ?thesis using assms by (simp add: users_ok_def process_one_def Let_def)
next
  case (Some u)
  show ?thesis
  proof (cases "maxSessionsPerUser (config s) \<le> count_or_0 (sessionsByUser s) u")
    case True
    then show ?thesis using assms Some by (simp add: users_ok_def process_one_def Let_def)
  next
    case False
    then have "users_bounded (config s)
        ((sessionsByUser s)(u \<mapsto> count_or_0 (sessionsByUser s) u + 1))"
      using assms by (intro users_bounded_incr) (simp_all add: users_ok_def)
    then show ?thesis using False Some by (simp add: users_ok_def process_one_def Let_def)
  qed
qed

lemma users_ok_processQueue: "users_ok s \<Longrightarrow> users_ok (processQueue s)"
proof (rule processQueue_rule [where P = users_ok])
  fix s b show "users_ok (s\<lparr> processing := b \<rparr>) = users_ok s"
    by (simp add: users_ok_def)
qed (simp_all add: users_ok_process_one)

lemma users_ok_release_counters:
  assumes "users_ok s"
  shows "users_ok (release_counters uid s)"
proof (cases "user_of uid")
  case None
  then show ?thesis using assms by (simp add: users_ok_def release_counters_def)
next
  case (Some u)
  have "users_bounded (config s)
     (if count_or_0 (sessionsByUser s) u > 1
      then (sessionsByUser s)(u \<mapsto> count_or_0 (sessionsByUser s) u - 1)
      else (sessionsByUser s)(u := None))"
    using assms unfolding users_ok_def by (rule users_bounded_decr)
  then show ?thesis using Some by (simp add: users_ok_def release_counters_def)
qed

lemma users_ok_request:
  assumes "users_ok s" and "1 \<le> maxSessionsPerUser (config s)"
  shows "users_ok (snd (requestBrowserLaunch uid prio now s))"
proof (cases "maxConcurrentBrowsers (config s) \<le> activeBrowsers s")
  case True
  then show ?thesis using assms(1)
    by (simp add: users_ok_def requestBrowserLaunch_def enqueue_def Let_def)
next
  case False
  show ?thesis
  proof (cases "user_of uid")
    case None
    then show ?thesis using assms(1) False
      by (simp add: users_ok_def requestBrowserLaunch_def)
  next
    case (Some u)
    show ?thesis
    proof (cases "sessionsByUser s u")
      case None
      have "users_bounded (config s)
          ((sessionsByUser s)(u \<mapsto> count_or_0 (sessionsByUser s) u + 1))"
        using assms None by (intro users_bounded_first) (simp_all add: users_ok_def)
      then show ?thesis using None Some False
        by (simp add: users_ok_def requestBrowserLaunch_def)
    next
      case (Some c)
      note c = this
      show ?thesis
      proof (cases "maxSessionsPerUser (config s) \<le> c")
        case True
        then show ?thesis using assms(1) c \<open>user_of uid = Some u\<close> False
          by (simp add: users_ok_def requestBrowserLaunch_def)
      next
        case lt: False
        then have "count_or_0 (sessionsByUser s) u < maxSessionsPerUser (config s)"
          using c by (simp add: count_or_0_def)
        then have "users_bounded (config s)
            ((sessionsByUser s)(u \<mapsto> count_or_0 (sessionsByUser s) u + 1))"
          using assms(1) by (intro users_bounded_incr) (simp_all add: users_ok_def)
        then show ?thesis using lt c \<open>user_of uid = Some u\<close> False
          by (simp add: users_ok_def requestBrowserLaunch_def)
      qed
    qed
  qed
qed

lemma users_ok_step:
  "users_ok s \<Longrightarrow> 1 \<le> maxSessionsPerUser (config s) \<Longrightarrow> users_ok (step s e)"
proof (cases e)
  case (RequestLaunch uid prio now)
  assume "users_ok s" "1 \<le> maxSessionsPerUser (config s)"
  then show ?thesis using RequestLaunch by (simp add: users_ok_request)
next
  case (Release uid)
  assume "users_ok s"
  then show ?thesis using Release
    by (simp add: releaseBrowser_def users_ok_processQueue users_ok_release_counters)
next
  case (TimerFired n)
  assume "users_ok s"
  then show ?thesis using TimerFired
    by (simp add: users_ok_def timer_fired_def removeFromQueue_def Let_def)
next
  case ClearQueue
  assume "users_ok s"
  then show ?thesis using ClearQueue by (simp add: users_ok_def clearQueue_def)
qed

text \<open>With a per-user limit of at least one, no user ever holds more sessions than the
  limit.\<close>

lemma user_counts_bounded_when_limit_positive:
  "1 \<le> maxSessionsPerUser cfg \<Longrightarrow> users_ok (run cfg evs)"
proof (induction evs rule: rev_induct)
  case Nil
  then show ?case
    by (simp add: run_Nil users_ok_def users_bounded_def ResourceManager_new_def)
next
  case (snoc e evs)
  then show ?case by (simp add: run_snoc users_ok_step)
qed

text \<open>
  C3: a granted request must leave its user with at most \<open>maxSessionsPerUser\<close> sessions.
  With a limit of zero the immediate path of \<^verbatim>\<open>requestBrowserLaunch\<close> does not: for a user
  with no entry yet its check compares \<^verbatim>\<open>undefined\<close> with the limit, which is false, and
  the request is granted, leaving the user with one session. The check of
  \<^verbatim>\<open>processQueue\<close> reads a missing entry as zero, and rejects the same request.
\<close>

theorem immediate_grant_ignores_zero_user_limit:
  "maxSessionsPerUser zero_limit_config = 0 \<and>
   fst (requestBrowserLaunch (Some ''u1'') 0 0 (ResourceManager_new zero_limit_config))
     = Granted \<and>
   sessionsByUser
     (snd (requestBrowserLaunch (Some ''u1'') 0 0 (ResourceManager_new zero_limit_config)))
     ''u1'' = Some 1 \<and>
   settled (run zero_limit_config
              [RequestLaunch None 0 0, RequestLaunch (Some ''u1'') 0 1, Release None])
     = [(1, Rejected (SessionLimit ''u1''))]"
  by (simp add: zero_limit_config_def example_config_def ResourceManager_new_def
      requestBrowserLaunch_def enqueue_def user_of_def count_or_0_def stable_sort_def
      run_def releaseBrowser_def release_counters_def processQueue_def
      processQueue_loop.simps process_one_def Let_def)

section \<open>Properties of the session manager\<close>

lemma string_of_nat_1 [simp]: "string_of_nat (Suc 0) = ''1''"
  by (subst string_of_nat.simps) simp

lemma or_else_empty [simp]: "or_else (Some []) d = d" "or_else None d = d"
  by (simp_all add: or_else_def)

lemma or_else_nonempty [simp]: "x \<noteq> [] \<Longrightarrow> or_else (Some x) d = x"
  by (simp add: or_else_def)

text \<open>The session that \<^verbatim>\<open>createSession\<close> registers with the example engine.\<close>

lemma createSession_example:
  "createSession example_codec example_engine 0 None None (System_new example_config)
   = (Inr ''session-1'',
      \<lparr> sessions = [''session-1'' \<mapsto>
           \<lparr> s_id = ''session-1'', s_browser = 1, s_page = 2, s_browserType = ''chromium'',
             s_consoleLog = [], s_screenshots = [], s_responsePromises = [],
             s_createdAt = 0, s_lastAccessedAt = 0, s_settings = None \<rparr>],
        nextSessionId = 2,
        disk = persistSession example_codec example_engine
           \<lparr> s_id = ''session-1'', s_browser = 1, s_page = 2, s_browserType = ''chromium'',
             s_consoleLog = [], s_screenshots = [], s_responsePromises = [],
             s_createdAt = 0, s_lastAccessedAt = 0, s_settings = None \<rparr>
           \<lparr> files = [], faulty = {}, mkdir_fails = False \<rparr>,
        governor = ResourceManager_new example_config \<rparr>)"
  by (simp add: createSession_def Let_def truthy_string_def System_new_def
      example_engine_def contextOptions_def)

subsection \<open>Admission and release\<close>

lemma governor_createSession:
  "governor (snd (createSession codec eng now sessionId settings w)) = governor w"
  by (simp add: createSession_def Let_def split: sum.splits)

text \<open>
  C1, as the code has it: \<^verbatim>\<open>createSession\<close>, \<^verbatim>\<open>closeSession\<close> and the disconnection
  handler never call the resource manager. Each of them leaves the manager, with its
  count of active browsers, its per-user counts and its queue, exactly as it was.
\<close>

theorem session_lifecycle_leaves_governor_untouched:
  "governor (snd (createSession codec eng now sessionId settings w)) = governor w \<and>
   governor (snd (closeSession sid w)) = governor w \<and>
   governor (on_disconnected sid w) = governor w"
  by (simp add: governor_createSession closeSession_def on_disconnected_def
      split: option.splits)

text \<open>
  C1 as stated fails: a session is created and its identifier returned while the count of
  active browsers stays at zero, and closing the session releases nothing.
\<close>

theorem createSession_without_admission:
  "fst (createSession example_codec example_engine 0 None None (System_new example_config))
     = Inr ''session-1'' \<and>
   activeBrowsers (governor (System_new example_config)) = 0 \<and>
   activeBrowsers (governor (snd
     (createSession example_codec example_engine 0 None None (System_new example_config))))
     = 0 \<and>
   activeBrowsers (governor (snd (closeSession ''session-1'' (snd
     (createSession example_codec example_engine 0 None None (System_new example_config))))))
     = 0"
  by (simp add: createSession_example closeSession_def)
     (simp add: System_new_def ResourceManager_new_def)


subsection \<open>Closing and looking up\<close>

lemma createSession_default_example:
  "createSession example_codec example_engine 0 (Some ''default'') None
     (System_new example_config)
   = (Inr ''default'',
      \<lparr> sessions = [''default'' \<mapsto>
           \<lparr> s_id = ''default'', s_browser = 1, s_page = 2, s_browserType = ''chromium'',
             s_consoleLog = [], s_screenshots = [], s_responsePromises = [],
             s_createdAt = 0, s_lastAccessedAt = 0, s_settings = None \<rparr>],
        nextSessionId = 1,
        disk = persistSession example_codec example_engine
           \<lparr> s_id = ''default'', s_browser = 1, s_page = 2, s_browserType = ''chromium'',
             s_consoleLog = [], s_screenshots = [], s_responsePromises = [],
             s_createdAt = 0, s_lastAccessedAt = 0, s_settings = None \<rparr>
           \<lparr> files = [], faulty = {}, mkdir_fails = False \<rparr>,
        governor = ResourceManager_new example_config \<rparr>)"
  by (simp add: createSession_def Let_def truthy_string_def System_new_def
      example_engine_def contextOptions_def)

text \<open>
  C6 as stated fails: \<^verbatim>\<open>closeSession\<close> on an identifier that a disconnection has already
  removed throws the not-found error; and for the empty identifier, which \<^verbatim>\<open>getSession\<close>
  reads as the default session, a lookup after \<^verbatim>\<open>closeSession\<close> still finds that session.
\<close>

theorem closeSession_absent_throws:
  "fst (closeSession ''session-1'' (on_disconnected ''session-1'' (snd
     (createSession example_codec example_engine 0 None None (System_new example_config)))))
     = Inl (NotFound ''session-1'') \<and>
   fst (closeSession [] (snd
     (createSession example_codec example_engine 0 (Some ''default'') None
        (System_new example_config))))
     = Inl (NotFound []) \<and>
   map_option s_id (fst (getSession 5 (Some []) (snd (closeSession [] (snd
     (createSession example_codec example_engine 0 (Some ''default'') None
        (System_new example_config)))))))
     = Some ''default''"
  by (simp add: createSession_example createSession_default_example closeSession_def
      on_disconnected_def getSession_def defaultSessionId_def Let_def)

text \<open>
  C6, amended: for every non-empty identifier, a lookup after \<^verbatim>\<open>closeSession\<close> reports
  not-found, whether the call closed the session or threw; on an identifier that is absent
  from the registry \<^verbatim>\<open>closeSession\<close> throws the not-found error and changes nothing, and on
  a registered one it returns normally.
\<close>

theorem closeSession_then_getSession:
  "(sessionId \<noteq> [] \<longrightarrow>
      fst (getSession now (Some sessionId) (snd (closeSession sessionId w))) = None) \<and>
   (sessions w sessionId = None \<longrightarrow>
      closeSession sessionId w = (Inl (NotFound sessionId), w)) \<and>
   (sessions w sessionId \<noteq> None \<longrightarrow> fst (closeSession sessionId w) = Inr ())"
  by (auto simp: closeSession_def getSession_def Let_def split: option.splits)

theorem closeSession_then_getSession_witness:
  "''session-1'' \<noteq> [] \<and>
   fst (getSession 5 (Some ''session-1'') (snd (closeSession ''session-1'' (snd
     (createSession example_codec example_engine 0 None None (System_new example_config))))))
     = None \<and>
   sessions (System_new example_config) ''session-1'' = None \<and>
   closeSession ''session-1'' (System_new example_config)
     = (Inl (NotFound ''session-1''), System_new example_config) \<and>
   sessions (snd (createSession example_codec example_engine 0 None None
      (System_new example_config))) ''session-1'' \<noteq> None \<and>
   fst (closeSession ''session-1'' (snd
     (createSession example_codec example_engine 0 None None (System_new example_config))))
     = Inr ()"
proof -
  let ?w = "snd (createSession example_codec example_engine 0 None None
      (System_new example_config))"
  have a: "sessions (System_new example_config) ''session-1'' = None"
    by (simp add: System_new_def)
  have b: "sessions ?w ''session-1'' \<noteq> None" by (simp add: createSession_example)
  show ?thesis
    using closeSession_then_getSession [of "''session-1''" 5 ?w]
      closeSession_then_getSession [of "''session-1''" 5 "System_new example_config"] a b
    by simp
qed

subsection \<open>The empty identifier\<close>

lemma createSession_generated:
  assumes "createSession codec eng now None settings w = (Inr sid, w')"
  shows "sid = ''session-'' @ string_of_nat (nextSessionId w) \<and>
     sessions w' sid \<noteq> None \<and> sessions w' [] = sessions w [] \<and>
     nextSessionId w' = nextSessionId w + 1"
  using assms
  by (auto simp: createSession_def Let_def truthy_string_def
      split: if_splits sum.splits)

text \<open>
  C10: the empty string as a session identifier is read as no identifier. \<^verbatim>\<open>getSession\<close>
  of the empty string does what \<^verbatim>\<open>getSession\<close> without an argument does and returns the
  default session, when there is one; \<^verbatim>\<open>createSession\<close> of the empty string does what
  \<^verbatim>\<open>createSession\<close> without an identifier does, and when it returns, the session is
  registered under \<^verbatim>\<open>session-<counter>\<close>, nothing is registered under the empty string,
  and the counter has advanced.
\<close>

theorem empty_identifier_is_no_identifier:
  "getSession now (Some []) w = getSession now None w \<and>
   fst (getSession now (Some []) w)
     = map_option (\<lambda>session. session\<lparr> s_lastAccessedAt := now \<rparr>) (sessions w defaultSessionId) \<and>
   createSession codec eng now (Some []) settings w
     = createSession codec eng now None settings w \<and>
   (\<forall>sid w'. createSession codec eng now (Some []) settings w = (Inr sid, w') \<longrightarrow>
      sid = ''session-'' @ string_of_nat (nextSessionId w) \<and>
      sessions w' sid \<noteq> None \<and> sessions w' [] = sessions w [] \<and>
      nextSessionId w' = nextSessionId w + 1)"
proof -
  have g: "getSession now (Some []) w = getSession now None w"
    by (simp add: getSession_def)
  have d: "fst (getSession now (Some []) w)
     = map_option (\<lambda>session. session\<lparr> s_lastAccessedAt := now \<rparr>) (sessions w defaultSessionId)"
    by (simp add: getSession_def Let_def split: option.splits)
  have c: "createSession codec eng now (Some []) settings w
     = createSession codec eng now None settings w"
    by (simp add: createSession_def truthy_string_def)
  show ?thesis using g d c createSession_generated [of codec eng now settings w]
    by simp
qed

theorem empty_identifier_is_no_identifier_witness:
  "createSession example_codec example_engine 0 (Some []) None (System_new example_config)
     = (Inr ''session-1'', snd (createSession example_codec example_engine 0 (Some []) None
          (System_new example_config))) \<and>
   ''session-1'' = ''session-'' @ string_of_nat (nextSessionId (System_new example_config)) \<and>
   sessions (snd (createSession example_codec example_engine 0 (Some []) None
          (System_new example_config))) ''session-1'' \<noteq> None \<and>
   sessions (snd (createSession example_codec example_engine 0 (Some []) None
          (System_new example_config))) [] = None \<and>
   fst (getSession 0 (Some []) (snd (createSession example_codec example_engine 0
          (Some ''default'') None (System_new example_config))))
     = fst (getSession 0 None (snd (createSession example_codec example_engine 0
          (Some ''default'') None (System_new example_config))))"
proof -
  let ?w0 = "System_new example_config"
  let ?r = "createSession example_codec example_engine 0 (Some []) None ?w0"
  let ?wd = "snd (createSession example_codec example_engine 0 (Some ''default'') None ?w0)"
  note inst = empty_identifier_is_no_identifier
                [where now = 0 and w = ?w0 and codec = example_codec
                   and eng = example_engine and settings = None]
  have eq: "?r = createSession example_codec example_engine 0 None None ?w0"
    using inst by simp
  have r: "?r = (Inr ''session-1'', snd ?r)"
    unfolding eq by (simp add: createSession_example)
  have all: "''session-1'' = ''session-'' @ string_of_nat (nextSessionId ?w0) \<and>
      sessions (snd ?r) ''session-1'' \<noteq> None \<and> sessions (snd ?r) [] = sessions ?w0 [] \<and>
      nextSessionId (snd ?r) = nextSessionId ?w0 + 1"
    using inst r by blast
  have c2: "''session-1'' = ''session-'' @ string_of_nat (nextSessionId ?w0)"
    and c3: "sessions (snd ?r) ''session-1'' \<noteq> None"
    and c4': "sessions (snd ?r) [] = sessions ?w0 []"
    using all by blast+
  have "sessions ?w0 [] = None" by (simp add: System_new_def)
  with c4' have c4: "sessions (snd ?r) [] = None" by simp
  have c5: "fst (getSession 0 (Some []) ?wd) = fst (getSession 0 None ?wd)"
    using empty_identifier_is_no_identifier
            [where now = 0 and w = ?wd and codec = example_codec
               and eng = example_engine and settings = None]
    by simp
  from r c2 c3 c4 c5 show ?thesis by (intro conjI)
qed

section \<open>Properties of the persistence store\<close>

subsection \<open>Paths of plain identifiers\<close>

lemma split_path_not_Nil [simp]: "split_path s \<noteq> []"
  by (induction s) (auto split: list.splits)








subsection \<open>JSON values come back as written\<close>






subsection \<open>Saving and loading\<close>











section \<open>Properties of recovery\<close>

lemma ends_with_s1 [simp]: "ends_with ''s1.json'' ''.json''"
  by (simp add: ends_with_def)



















end
